theory Spec2Isabelle
  imports Complex_Main
begin

section \<open>Numbers, vectors and errors\<close>

text \<open>
  The program is \<^verbatim>\<open>Experiments/ODE_Solvers/ode_solvers.py\<close>: the DC motor vector field
  \<^verbatim>\<open>dc_motor_ode\<close> and the fixed-step integrator \<^verbatim>\<open>runge_kutta4\<close>.

  The program is embedded twice. The first embedding computes in exact real arithmetic;
  it carries the facts that do not depend on rounding. The second embedding, further
  down, rounds the result of every operation and covers IEEE binary64. Infinities and
  NaN are outside both. A one-dimensional array is a list of reals, the
  two-dimensional state buffer a list of rows. Every exception the code can raise on
  these data is a value of \<open>error\<close>.
\<close>

type_synonym vec = "real list"

datatype error = ZeroDivisionError | IndexError | ValueError | TypeError

type_synonym 'p field = "vec \<Rightarrow> real \<Rightarrow> 'p \<Rightarrow> error + vec"

text \<open>Sequencing of fallible steps: the first exception ends the computation.\<close>

definition and_then :: "error + 'a \<Rightarrow> ('a \<Rightarrow> error + 'b) \<Rightarrow> error + 'b" where
  "and_then r k = (case r of Inl e \<Rightarrow> Inl e | Inr x \<Rightarrow> k x)"

section \<open>The DC motor vector field\<close>

text \<open>
  \<^verbatim>\<open>
  def dc_motor_ode(state, t, params):
      w, i = state
      J, b, Kt, Ke, R, L, u = params
      dw_dt = (Kt * i - b * w) / J
      di_dt = (u - R * i - Ke * w) / L
      return np.array([dw_dt, di_dt])
  \<close>
  Unpacking a sequence of the wrong length raises ValueError. A division by zero raises
  ZeroDivisionError on Python floats and gives an infinity or NaN on NumPy scalars; both
  outcomes have no real value and are the error \<open>ZeroDivisionError\<close> here.
\<close>

definition dc_motor_ode :: "vec \<Rightarrow> real \<Rightarrow> real list \<Rightarrow> error + vec" where
  "dc_motor_ode state t params =
     (case state of
        [\<omega>, i] \<Rightarrow>
          (case params of
             [J, b, Kt, Ke, R, L, u] \<Rightarrow>
               if J = 0 then Inl ZeroDivisionError
               else if L = 0 then Inl ZeroDivisionError
               else Inr [(Kt * i - b * \<omega>) / J, (u - R * i - Ke * \<omega>) / L]
           | _ \<Rightarrow> Inl ValueError)
      | _ \<Rightarrow> Inl ValueError)"

section \<open>The NumPy operations the integrator uses\<close>

text \<open>
  \<^verbatim>\<open>np.arange(start, stop, step)\<close> divides \<open>stop - start\<close> by \<open>step\<close> (an exception when
  the step is zero), takes the ceiling as the length, a length below zero counting as
  zero, and fills sample \<open>k\<close> with \<open>start + k * step\<close>.
\<close>

definition arange :: "real \<Rightarrow> real \<Rightarrow> real \<Rightarrow> error + real list" where
  "arange start stop step =
     (if step = 0 then Inl ZeroDivisionError
      else Inr (map (\<lambda>k. start + real k * step) [0..<nat \<lceil>(stop - start) / step\<rceil>]))"

text \<open>\<^verbatim>\<open>np.zeros((n, d))\<close>: \<open>n\<close> rows of \<open>d\<close> zeros.\<close>

definition np_zeros :: "nat \<Rightarrow> nat \<Rightarrow> vec list" where
  "np_zeros n d = replicate n (replicate d 0)"

text \<open>Reading \<^verbatim>\<open>a[i]\<close> for an index from a \<^verbatim>\<open>range\<close>: IndexError out of range.\<close>

definition index :: "'a list \<Rightarrow> nat \<Rightarrow> error + 'a" where
  "index xs i = (if i < length xs then Inr (xs ! i) else Inl IndexError)"

text \<open>Array times scalar, array divided by scalar, scalar times array: elementwise.\<close>

definition np_mul :: "vec \<Rightarrow> real \<Rightarrow> vec" where
  "np_mul v c = map (\<lambda>x. x * c) v"

definition np_div :: "vec \<Rightarrow> real \<Rightarrow> vec" where
  "np_div v c = map (\<lambda>x. x / c) v"

definition np_rmul :: "real \<Rightarrow> vec \<Rightarrow> vec" where
  "np_rmul c v = map (\<lambda>x. c * x) v"

text \<open>
  Array plus array follows NumPy's broadcasting of one-dimensional shapes: equal lengths
  add elementwise, a length-one operand is stretched over the other, and any other pair
  of lengths raises ValueError.
\<close>

definition np_add :: "vec \<Rightarrow> vec \<Rightarrow> error + vec" where
  "np_add a b =
     (if length a = length b then Inr (map2 (+) a b)
      else if length a = 1 then Inr (map (\<lambda>y. hd a + y) b)
      else if length b = 1 then Inr (map (\<lambda>x. x + hd b) a)
      else Inl ValueError)"

text \<open>
  The row assignment \<^verbatim>\<open>a[i] = v\<close>: IndexError when there is no row \<open>i\<close>; the value is
  copied into the row, a length-one value being stretched over it, and any other length
  that differs from the row's raises ValueError.
\<close>

definition np_assign_row :: "vec list \<Rightarrow> nat \<Rightarrow> vec \<Rightarrow> error + vec list" where
  "np_assign_row a i v =
     (if length a \<le> i then Inl IndexError
      else if length v = length (a ! i) then Inr (a[i := v])
      else if length v = 1 then Inr (a[i := replicate (length (a ! i)) (hd v)])
      else Inl ValueError)"

section \<open>The integrator\<close>

text \<open>
  One pass of the loop body, for the index \<open>i\<close>:
  \<^verbatim>\<open>
  k1 = f(state[i], t[i], params) * dt
  k2 = f(state[i] + k1/2, t[i] + dt/2, params) * dt
  k3 = f(state[i] + k2/2, t[i] + dt/2, params) * dt
  k4 = f(state[i] + k3, t[i] + dt, params) * dt
  state[i+1] = state[i] + (k1 + 2*k2 + 2*k3 + k4) / 6
  \<close>
  An exception of the field passes through unchanged.
\<close>

definition rk4_body :: "'p field \<Rightarrow> 'p \<Rightarrow> real \<Rightarrow> real list \<Rightarrow> vec list \<Rightarrow> nat \<Rightarrow> error + vec list" where
  "rk4_body f params dt t state i =
     and_then (index state i) (\<lambda>s.
     and_then (index t i) (\<lambda>ti.
     and_then (f s ti params) (\<lambda>d1.
     let k1 = np_mul d1 dt in
     and_then (np_add s (np_div k1 2)) (\<lambda>s2.
     and_then (f s2 (ti + dt / 2) params) (\<lambda>d2.
     let k2 = np_mul d2 dt in
     and_then (np_add s (np_div k2 2)) (\<lambda>s3.
     and_then (f s3 (ti + dt / 2) params) (\<lambda>d3.
     let k3 = np_mul d3 dt in
     and_then (np_add s k3) (\<lambda>s4.
     and_then (f s4 (ti + dt) params) (\<lambda>d4.
     let k4 = np_mul d4 dt in
     and_then (np_add k1 (np_rmul 2 k2)) (\<lambda>a1.
     and_then (np_add a1 (np_rmul 2 k3)) (\<lambda>a2.
     and_then (np_add a2 k4) (\<lambda>a3.
     and_then (np_add s (np_div a3 6)) (\<lambda>s_next.
     np_assign_row state (i + 1) s_next)))))))))))))"

text \<open>\<^verbatim>\<open>for i in range(n-1)\<close>: the body runs once for each index, in order.\<close>

fun rk4_loop :: "'p field \<Rightarrow> 'p \<Rightarrow> real \<Rightarrow> real list \<Rightarrow> nat list \<Rightarrow> vec list \<Rightarrow> error + vec list" where
  "rk4_loop f params dt t [] state = Inr state"
| "rk4_loop f params dt t (i # is) state =
     (case rk4_body f params dt t state i of
        Inl e \<Rightarrow> Inl e
      | Inr state' \<Rightarrow> rk4_loop f params dt t is state')"

text \<open>
  \<^verbatim>\<open>
  def runge_kutta4(f, state0, t_span, dt, params):
      t0, tf = t_span
      t = np.arange(t0, tf, dt)
      n = len(t)
      state = np.zeros((n, len(state0)))
      state[0] = state0
      for i in range(n-1):
          ...
      return t, state
  \<close>
  \<^verbatim>\<open>range(n-1)\<close> is empty for \<open>n = 0\<close> as \<open>[0..<0 - 1]\<close> is.
\<close>

definition runge_kutta4 ::
  "'p field \<Rightarrow> vec \<Rightarrow> real \<times> real \<Rightarrow> real \<Rightarrow> 'p \<Rightarrow> error + (real list \<times> vec list)" where
  "runge_kutta4 f state0 t_span dt params =
     (case t_span of (t0, tf) \<Rightarrow>
        and_then (arange t0 tf dt) (\<lambda>t.
        let n = length t in
        and_then (np_assign_row (np_zeros n (length state0)) 0 state0) (\<lambda>state.
        and_then (rk4_loop f params dt t [0..<n - 1] state) (\<lambda>state'.
        Inr (t, state')))))"

section \<open>Auxiliary notions for the statements\<close>

text \<open>
  The value the loop body computes for the next row, before it is assigned: the body of
  \<open>rk4_body\<close> without the two index reads and the final row assignment.
\<close>

definition rk4_next :: "'p field \<Rightarrow> 'p \<Rightarrow> real \<Rightarrow> vec \<Rightarrow> real \<Rightarrow> error + vec" where
  "rk4_next f params dt s ti =
     and_then (f s ti params) (\<lambda>d1.
     let k1 = np_mul d1 dt in
     and_then (np_add s (np_div k1 2)) (\<lambda>s2.
     and_then (f s2 (ti + dt / 2) params) (\<lambda>d2.
     let k2 = np_mul d2 dt in
     and_then (np_add s (np_div k2 2)) (\<lambda>s3.
     and_then (f s3 (ti + dt / 2) params) (\<lambda>d3.
     let k3 = np_mul d3 dt in
     and_then (np_add s k3) (\<lambda>s4.
     and_then (f s4 (ti + dt) params) (\<lambda>d4.
     let k4 = np_mul d4 dt in
     and_then (np_add k1 (np_rmul 2 k2)) (\<lambda>a1.
     and_then (np_add a1 (np_rmul 2 k3)) (\<lambda>a2.
     and_then (np_add a2 k4) (\<lambda>a3.
     np_add s (np_div a3 6)))))))))))"

text \<open>What a row of length \<open>d\<close> holds after a value has been assigned to it.\<close>

definition stretch :: "nat \<Rightarrow> vec \<Rightarrow> vec" where
  "stretch d v = (if length v = d then v else replicate d (hd v))"

text \<open>A field that answers every state of dimension \<open>d\<close> with a derivative of dimension \<open>d\<close>.\<close>

definition field_ok :: "'p field \<Rightarrow> 'p \<Rightarrow> nat \<Rightarrow> bool" where
  "field_ok f params d \<longleftrightarrow>
     (\<forall>s t. length s = d \<longrightarrow> (\<exists>v. f s t params = Inr v \<and> length v = d))"

text \<open>
  The recurrence of the specification, in its own words: elementwise addition and scalar
  multiples of vectors, and
  \<^verbatim>\<open>
  k1 = f(s, t, params)
  k2 = f(s + h/2 * k1, t + h/2, params)
  k3 = f(s + h/2 * k2, t + h/2, params)
  k4 = f(s + h * k3, t + h, params)
  s_next = s + h/6 * (k1 + 2*k2 + 2*k3 + k4)
  \<close>
  for a field that is a pure total function.
\<close>

definition vadd :: "vec \<Rightarrow> vec \<Rightarrow> vec" where
  "vadd a b = map2 (+) a b"

definition smul :: "real \<Rightarrow> vec \<Rightarrow> vec" where
  "smul c v = map (\<lambda>x. c * x) v"

definition spec_rk4_step :: "(vec \<Rightarrow> real \<Rightarrow> 'p \<Rightarrow> vec) \<Rightarrow> 'p \<Rightarrow> real \<Rightarrow> vec \<Rightarrow> real \<Rightarrow> vec" where
  "spec_rk4_step g params h s t =
     (let k1 = g s t params;
          k2 = g (vadd s (smul (h / 2) k1)) (t + h / 2) params;
          k3 = g (vadd s (smul (h / 2) k2)) (t + h / 2) params;
          k4 = g (vadd s (smul h k3)) (t + h) params
      in vadd s (smul (h / 6) (vadd (vadd (vadd k1 (smul 2 k2)) (smul 2 k3)) k4)))"

text \<open>A pure total function as a field of the integrator: it never raises.\<close>

definition pure_field :: "(vec \<Rightarrow> real \<Rightarrow> 'p \<Rightarrow> vec) \<Rightarrow> 'p field" where
  "pure_field g = (\<lambda>s t params. Inr (g s t params))"

text \<open>The field that is zero everywhere: a zero vector of the state's dimension.\<close>

definition zero_field :: "'p field" where
  "zero_field s t params = Inr (replicate (length s) 0)"

section \<open>The integrator on a store\<close>

text \<open>
  For the claims about what a call leaves behind, the same program is read with its
  objects in a store. A store is a list of objects and an address is a position in it;
  allocation appends, so a new object never has the address of an old one. The objects
  are one-dimensional sequences of numbers (a Python list of floats or a NumPy array),
  two-dimensional arrays, and the parameter bundle, which the integrator only hands to
  the field. A NumPy array of floats holds numbers, not references: a row assignment
  copies the values of its source.

  The caller passes the addresses of \<open>state0\<close> and \<open>params\<close>. The temporaries of the loop
  body (\<open>k1\<close> to \<open>k4\<close> and the sums) are fresh arrays that are read and never written,
  so the body computes them as values, by \<open>rk4_body\<close>, and writes the updated buffer
  back at the buffer's address. The field is a function of the values it is given.
\<close>

datatype 'p obj = Vec vec | Mat "vec list" | Params 'p

type_synonym addr = nat

type_synonym 'p store = "'p obj list"

text \<open>A new object: its address is the first free position.\<close>

definition alloc :: "'p store \<Rightarrow> 'p obj \<Rightarrow> addr \<times> 'p store" where
  "alloc h ob = (length h, h @ [ob])"

text \<open>Reading an object as what the code uses it for; TypeError if it is something else.\<close>

definition get_vec :: "'p store \<Rightarrow> addr \<Rightarrow> error + vec" where
  "get_vec h a =
     (if a < length h then (case h ! a of Vec v \<Rightarrow> Inr v | _ \<Rightarrow> Inl TypeError)
      else Inl TypeError)"

definition get_mat :: "'p store \<Rightarrow> addr \<Rightarrow> error + vec list" where
  "get_mat h a =
     (if a < length h then (case h ! a of Mat m \<Rightarrow> Inr m | _ \<Rightarrow> Inl TypeError)
      else Inl TypeError)"

definition get_params :: "'p store \<Rightarrow> addr \<Rightarrow> error + 'p" where
  "get_params h a =
     (if a < length h then (case h ! a of Params p \<Rightarrow> Inr p | _ \<Rightarrow> Inl TypeError)
      else Inl TypeError)"

text \<open>\<^verbatim>\<open>state[i] = src\<close> on the store: the row of the buffer receives the values of \<open>src\<close>.\<close>

definition st_assign_row :: "'p store \<Rightarrow> addr \<Rightarrow> nat \<Rightarrow> addr \<Rightarrow> error + 'p store" where
  "st_assign_row h a i a_src =
     and_then (get_mat h a) (\<lambda>m.
     and_then (get_vec h a_src) (\<lambda>v.
     and_then (np_assign_row m i v) (\<lambda>m'.
     Inr (h[a := Mat m']))))"

text \<open>The loop body: it reads the buffer, the time grid and the parameters and writes the buffer.\<close>

definition st_rk4_body ::
  "'p field \<Rightarrow> addr \<Rightarrow> real \<Rightarrow> addr \<Rightarrow> addr \<Rightarrow> nat \<Rightarrow> 'p store \<Rightarrow> error + 'p store" where
  "st_rk4_body f a_params dt a_t a_state i h =
     and_then (get_mat h a_state) (\<lambda>state.
     and_then (get_vec h a_t) (\<lambda>t.
     and_then (get_params h a_params) (\<lambda>params.
     and_then (rk4_body f params dt t state i) (\<lambda>state'.
     Inr (h[a_state := Mat state'])))))"

fun st_rk4_loop ::
  "'p field \<Rightarrow> addr \<Rightarrow> real \<Rightarrow> addr \<Rightarrow> addr \<Rightarrow> nat list \<Rightarrow> 'p store \<Rightarrow> error + 'p store" where
  "st_rk4_loop f a_params dt a_t a_state [] h = Inr h"
| "st_rk4_loop f a_params dt a_t a_state (i # is) h =
     (case st_rk4_body f a_params dt a_t a_state i h of
        Inl e \<Rightarrow> Inl e
      | Inr h' \<Rightarrow> st_rk4_loop f a_params dt a_t a_state is h')"

text \<open>
  \<^verbatim>\<open>runge_kutta4\<close> on the store: \<^verbatim>\<open>np.arange\<close> and \<^verbatim>\<open>np.zeros\<close> allocate, \<^verbatim>\<open>len(state0)\<close>
  and \<^verbatim>\<open>state[0] = state0\<close> read \<open>state0\<close>, the loop writes rows of the buffer, and the
  addresses of the two new arrays are returned.
\<close>

definition st_runge_kutta4 ::
  "'p field \<Rightarrow> addr \<Rightarrow> real \<times> real \<Rightarrow> real \<Rightarrow> addr \<Rightarrow> 'p store \<Rightarrow>
     error + ((addr \<times> addr) \<times> 'p store)" where
  "st_runge_kutta4 f a_state0 t_span dt a_params h =
     (case t_span of (t0, tf) \<Rightarrow>
        and_then (arange t0 tf dt) (\<lambda>t.
        case alloc h (Vec t) of (a_t, h1) \<Rightarrow>
        let n = length t in
        and_then (get_vec h1 a_state0) (\<lambda>s0.
        case alloc h1 (Mat (np_zeros n (length s0))) of (a_state, h2) \<Rightarrow>
        and_then (st_assign_row h2 a_state 0 a_state0) (\<lambda>h3.
        and_then (st_rk4_loop f a_params dt a_t a_state [0..<n - 1] h3) (\<lambda>h4.
        Inr ((a_t, a_state), h4))))))"

section \<open>The integrator in rounded arithmetic\<close>

text \<open>
  The code computes in IEEE binary64, where every arithmetic operation returns its exact
  result rounded. The second embedding follows the same source lines with every
  operation wrapped in a rounding function \<open>r\<close>. With the identity it is the exact
  embedding above; with \<open>round64\<close> it is binary64 with rounding to nearest, ties to
  even, as long as no result leaves the normal range: the exponent of \<open>round64\<close> is
  unbounded, so there is no overflow to infinity, no subnormal number and no NaN. The
  field is a function of the numbers it is given; the arithmetic inside it is its own.
\<close>

type_synonym rounding = "real \<Rightarrow> real"

text \<open>
  Rounding to the nearest integer, ties to the even one.
\<close>

definition rne :: "real \<Rightarrow> int" where
  "rne x =
     (let f = \<lfloor>x\<rfloor> in
      if x - of_int f < 1 / 2 then f
      else if 1 / 2 < x - of_int f then f + 1
      else if even f then f else f + 1)"

text \<open>
  Binary64 keeps 53 significant bits: a number with \<open>2^e \<le> |x| < 2^(e+1)\<close> is rounded to
  the nearest multiple of \<open>2^(e-52)\<close>.
\<close>

definition round64 :: rounding where
  "round64 x =
     (if x = 0 then 0
      else let e = \<lfloor>log 2 \<bar>x\<bar>\<rfloor> - 52
           in of_int (rne (x / 2 powr of_int e)) * 2 powr of_int e)"

text \<open>
  A rounding that keeps the sign of what it rounds. Binary64 does, short of underflow.
\<close>

definition sign_preserving :: "rounding \<Rightarrow> bool" where
  "sign_preserving r \<longleftrightarrow> (\<forall>x. 0 < x \<longrightarrow> 0 < r x) \<and> (\<forall>x. x < 0 \<longrightarrow> r x < 0) \<and> r 0 = 0"

text \<open>
  The array operations of the loop body, each component rounded.
\<close>

definition np_mul_r :: "rounding \<Rightarrow> vec \<Rightarrow> real \<Rightarrow> vec" where
  "np_mul_r r v c = map (\<lambda>x. r (x * c)) v"

definition np_div_r :: "rounding \<Rightarrow> vec \<Rightarrow> real \<Rightarrow> vec" where
  "np_div_r r v c = map (\<lambda>x. r (x / c)) v"

definition np_rmul_r :: "rounding \<Rightarrow> real \<Rightarrow> vec \<Rightarrow> vec" where
  "np_rmul_r r c v = map (\<lambda>x. r (c * x)) v"

definition np_add_r :: "rounding \<Rightarrow> vec \<Rightarrow> vec \<Rightarrow> error + vec" where
  "np_add_r r a b =
     (if length a = length b then Inr (map2 (\<lambda>x y. r (x + y)) a b)
      else if length a = 1 then Inr (map (\<lambda>y. r (hd a + y)) b)
      else if length b = 1 then Inr (map (\<lambda>x. r (x + hd b)) a)
      else Inl ValueError)"

text \<open>
  \<^verbatim>\<open>np.arange\<close> on floats: the length is the ceiling of the rounded quotient of the
  rounded difference \<open>stop - start\<close> by \<open>step\<close>; sample 0 is \<open>start\<close>, sample 1 is
  \<open>start + step\<close>, and NumPy's fill loop sets sample \<open>k \<ge> 2\<close> to \<open>start + k * delta\<close> with
  \<open>delta\<close> the difference of the first two samples, every operation rounded (no fused
  multiply-add).
\<close>

definition grid_r :: "rounding \<Rightarrow> real \<Rightarrow> real \<Rightarrow> nat \<Rightarrow> real list" where
  "grid_r r start step n =
     map (\<lambda>k. if k = 0 then start
              else if k = 1 then r (start + step)
              else r (start + r (real k * r (r (start + step) - start))))
       [0..<n]"

definition arange_r :: "rounding \<Rightarrow> real \<Rightarrow> real \<Rightarrow> real \<Rightarrow> error + real list" where
  "arange_r r start stop step =
     (if step = 0 then Inl ZeroDivisionError
      else Inr (grid_r r start step (nat \<lceil>r (r (stop - start) / step)\<rceil>)))"

text \<open>
  The loop body, the loop and the integrator as above, with rounded operations;
  \<^verbatim>\<open>t[i] + dt/2\<close> and \<^verbatim>\<open>t[i] + dt\<close> are rounded too. A row assignment copies float64
  values and rounds nothing.
\<close>

definition rk4_body_r ::
  "rounding \<Rightarrow> 'p field \<Rightarrow> 'p \<Rightarrow> real \<Rightarrow> real list \<Rightarrow> vec list \<Rightarrow> nat \<Rightarrow> error + vec list" where
  "rk4_body_r r f params dt t state i =
     and_then (index state i) (\<lambda>s.
     and_then (index t i) (\<lambda>ti.
     and_then (f s ti params) (\<lambda>d1.
     let k1 = np_mul_r r d1 dt in
     and_then (np_add_r r s (np_div_r r k1 2)) (\<lambda>s2.
     and_then (f s2 (r (ti + r (dt / 2))) params) (\<lambda>d2.
     let k2 = np_mul_r r d2 dt in
     and_then (np_add_r r s (np_div_r r k2 2)) (\<lambda>s3.
     and_then (f s3 (r (ti + r (dt / 2))) params) (\<lambda>d3.
     let k3 = np_mul_r r d3 dt in
     and_then (np_add_r r s k3) (\<lambda>s4.
     and_then (f s4 (r (ti + dt)) params) (\<lambda>d4.
     let k4 = np_mul_r r d4 dt in
     and_then (np_add_r r k1 (np_rmul_r r 2 k2)) (\<lambda>a1.
     and_then (np_add_r r a1 (np_rmul_r r 2 k3)) (\<lambda>a2.
     and_then (np_add_r r a2 k4) (\<lambda>a3.
     and_then (np_add_r r s (np_div_r r a3 6)) (\<lambda>s_next.
     np_assign_row state (i + 1) s_next)))))))))))))"

fun rk4_loop_r ::
  "rounding \<Rightarrow> 'p field \<Rightarrow> 'p \<Rightarrow> real \<Rightarrow> real list \<Rightarrow> nat list \<Rightarrow> vec list \<Rightarrow> error + vec list" where
  "rk4_loop_r r f params dt t [] state = Inr state"
| "rk4_loop_r r f params dt t (i # is) state =
     (case rk4_body_r r f params dt t state i of
        Inl e \<Rightarrow> Inl e
      | Inr state' \<Rightarrow> rk4_loop_r r f params dt t is state')"

definition runge_kutta4_r ::
  "rounding \<Rightarrow> 'p field \<Rightarrow> vec \<Rightarrow> real \<times> real \<Rightarrow> real \<Rightarrow> 'p \<Rightarrow> error + (real list \<times> vec list)" where
  "runge_kutta4_r r f state0 t_span dt params =
     (case t_span of (t0, tf) \<Rightarrow>
        and_then (arange_r r t0 tf dt) (\<lambda>t.
        let n = length t in
        and_then (np_assign_row (np_zeros n (length state0)) 0 state0) (\<lambda>state.
        and_then (rk4_loop_r r f params dt t [0..<n - 1] state) (\<lambda>state'.
        Inr (t, state')))))"

text \<open>
  The next row before it is assigned, as \<open>rk4_next\<close> above.
\<close>

definition rk4_next_r :: "rounding \<Rightarrow> 'p field \<Rightarrow> 'p \<Rightarrow> real \<Rightarrow> vec \<Rightarrow> real \<Rightarrow> error + vec" where
  "rk4_next_r r f params dt s ti =
     and_then (f s ti params) (\<lambda>d1.
     let k1 = np_mul_r r d1 dt in
     and_then (np_add_r r s (np_div_r r k1 2)) (\<lambda>s2.
     and_then (f s2 (r (ti + r (dt / 2))) params) (\<lambda>d2.
     let k2 = np_mul_r r d2 dt in
     and_then (np_add_r r s (np_div_r r k2 2)) (\<lambda>s3.
     and_then (f s3 (r (ti + r (dt / 2))) params) (\<lambda>d3.
     let k3 = np_mul_r r d3 dt in
     and_then (np_add_r r s k3) (\<lambda>s4.
     and_then (f s4 (r (ti + dt)) params) (\<lambda>d4.
     let k4 = np_mul_r r d4 dt in
     and_then (np_add_r r k1 (np_rmul_r r 2 k2)) (\<lambda>a1.
     and_then (np_add_r r a1 (np_rmul_r r 2 k3)) (\<lambda>a2.
     and_then (np_add_r r a2 k4) (\<lambda>a3.
     np_add_r r s (np_div_r r a3 6)))))))))))"

text \<open>
  The derivative a field returns, as a total function (the empty vector where the field
  raises), and the step of the code as a formula on such a function: lines 41 to 46
  of the source in their order of operations, additions being elementwise.
\<close>

definition value_of :: "'p field \<Rightarrow> vec \<Rightarrow> real \<Rightarrow> 'p \<Rightarrow> vec" where
  "value_of f s t params = (case f s t params of Inl e \<Rightarrow> [] | Inr v \<Rightarrow> v)"

definition vadd_r :: "rounding \<Rightarrow> vec \<Rightarrow> vec \<Rightarrow> vec" where
  "vadd_r r a b = map2 (\<lambda>x y. r (x + y)) a b"

definition code_rk4_step ::
  "rounding \<Rightarrow> (vec \<Rightarrow> real \<Rightarrow> 'p \<Rightarrow> vec) \<Rightarrow> 'p \<Rightarrow> real \<Rightarrow> vec \<Rightarrow> real \<Rightarrow> vec" where
  "code_rk4_step r g params dt s t =
     (let k1 = np_mul_r r (g s t params) dt;
          k2 = np_mul_r r (g (vadd_r r s (np_div_r r k1 2)) (r (t + r (dt / 2))) params) dt;
          k3 = np_mul_r r (g (vadd_r r s (np_div_r r k2 2)) (r (t + r (dt / 2))) params) dt;
          k4 = np_mul_r r (g (vadd_r r s k3) (r (t + dt)) params) dt
      in vadd_r r s
           (np_div_r r (vadd_r r (vadd_r r (vadd_r r k1 (np_rmul_r r 2 k2)) (np_rmul_r r 2 k3)) k4) 6))"

text \<open>
  The field whose derivative repeats the first number of the derivative of \<open>f\<close> in
  every component of the state.
\<close>

definition stretched :: "'p field \<Rightarrow> 'p field" where
  "stretched f = (\<lambda>s t params.
     case f s t params of Inl e \<Rightarrow> Inl e | Inr v \<Rightarrow> Inr (replicate (length s) (hd v)))"

section \<open>Basic facts about the model\<close>

lemma and_then_Inr [simp]: "and_then (Inr x) k = k x"
  by (simp add: and_then_def)

lemma and_then_Inl [simp]: "and_then (Inl e) k = Inl e"
  by (simp add: and_then_def)

lemma and_then_eq_Inr:
  "and_then r k = Inr y \<longleftrightarrow> (\<exists>x. r = Inr x \<and> k x = Inr y)"
  by (cases r) simp_all

lemma rk4_body_next:
  "rk4_body f params dt t state i =
     and_then (index state i) (\<lambda>s.
     and_then (index t i) (\<lambda>ti.
     and_then (rk4_next f params dt s ti) (\<lambda>s_next.
     np_assign_row state (i + 1) s_next)))"
  unfolding rk4_body_def rk4_next_def and_then_def Let_def
  by (simp split: sum.splits)

lemma np_assign_row_Inr:
  "np_assign_row a i v = Inr a' \<Longrightarrow>
     i < length a \<and> a' = a[i := stretch (length (a ! i)) v] \<and>
     (length v = length (a ! i) \<or> length v = 1)"
  by (auto simp: np_assign_row_def stretch_def split: if_splits)

lemma length_stretch: "length v = d \<or> length v = 1 \<Longrightarrow> length (stretch d v) = d"
  by (auto simp: stretch_def)

lemma rk4_body_Inr:
  assumes "rk4_body f params dt t state i = Inr state'"
  shows "i + 1 < length state \<and> i < length t \<and>
         (\<exists>v. rk4_next f params dt (state ! i) (t ! i) = Inr v \<and>
              (length v = length (state ! (i + 1)) \<or> length v = 1) \<and>
              state' = state[i + 1 := stretch (length (state ! (i + 1))) v])"
  using assms
  by (auto simp: rk4_body_next and_then_eq_Inr index_def split: if_splits
           dest!: np_assign_row_Inr)

lemma rk4_loop_upt_Inr:
  "rk4_loop f params dt t [a..<b] state = Inr state' \<Longrightarrow>
     length state' = length state \<and>
     (\<forall>j\<le>a. state' ! j = state ! j) \<and>
     (\<forall>j<length state. length (state' ! j) = length (state ! j)) \<and>
     (\<forall>i. a \<le> i \<and> i < b \<longrightarrow>
        i + 1 < length state \<and> i < length t \<and>
        (\<exists>v. rk4_next f params dt (state' ! i) (t ! i) = Inr v \<and>
             (length v = length (state ! (i + 1)) \<or> length v = 1) \<and>
             state' ! (i + 1) = stretch (length (state ! (i + 1))) v))"
proof (induction "b - a" arbitrary: a state)
  case 0
  then have "b \<le> a" by simp
  then have "[a..<b] = []" by simp
  with "0.prems" have "state' = state" by simp
  with \<open>b \<le> a\<close> show ?case by auto
next
  case (Suc m)
  then have lt: "a < b" and m: "m = b - Suc a" by arith+
  from lt have upt: "[a..<b] = a # [Suc a..<b]" by (simp add: upt_conv_Cons)
  from Suc.prems obtain s1 where
    body: "rk4_body f params dt t state a = Inr s1" and
    rest: "rk4_loop f params dt t [Suc a..<b] s1 = Inr state'"
    by (auto simp: upt split: sum.splits)
  from rk4_body_Inr [OF body] obtain v where
    a1: "a + 1 < length state" and at: "a < length t" and
    nx: "rk4_next f params dt (state ! a) (t ! a) = Inr v" and
    lv: "length v = length (state ! (a + 1)) \<or> length v = 1" and
    s1: "s1 = state[a + 1 := stretch (length (state ! (a + 1))) v]"
    by blast
  note IH = Suc.hyps(1) [OF m rest]
  have len1: "length s1 = length state" by (simp add: s1)
  have rows1: "\<forall>j<length state. length (s1 ! j) = length (state ! j)"
  proof (intro allI impI)
    fix j assume j: "j < length state"
    show "length (s1 ! j) = length (state ! j)"
    proof (cases "j = a + 1")
      case True
      have "length (stretch (length (state ! (a + 1))) v) = length (state ! (a + 1))"
        using lv by (rule length_stretch)
      then show ?thesis using True a1 by (simp add: s1)
    next
      case False
      then show ?thesis by (simp add: s1)
    qed
  qed
  have L: "length state' = length state" using IH len1 by simp
  have U: "\<forall>j\<le>a. state' ! j = state ! j"
    using IH by (auto simp: s1)
  have R: "\<forall>j<length state. length (state' ! j) = length (state ! j)"
    using IH len1 rows1 by auto
  have S: "\<forall>i. a \<le> i \<and> i < b \<longrightarrow>
        i + 1 < length state \<and> i < length t \<and>
        (\<exists>v. rk4_next f params dt (state' ! i) (t ! i) = Inr v \<and>
             (length v = length (state ! (i + 1)) \<or> length v = 1) \<and>
             state' ! (i + 1) = stretch (length (state ! (i + 1))) v)"
  proof (intro allI impI)
    fix i assume i: "a \<le> i \<and> i < b"
    show "i + 1 < length state \<and> i < length t \<and>
        (\<exists>v. rk4_next f params dt (state' ! i) (t ! i) = Inr v \<and>
             (length v = length (state ! (i + 1)) \<or> length v = 1) \<and>
             state' ! (i + 1) = stretch (length (state ! (i + 1))) v)"
    proof (cases "i = a")
      case True
      have "state' ! a = state ! a" using U by simp
      moreover have "state' ! (a + 1) = s1 ! (a + 1)" using IH by simp
      then have "state' ! (a + 1) = stretch (length (state ! (a + 1))) v"
        using a1 by (simp add: s1)
      ultimately show ?thesis using True a1 at nx lv by auto
    next
      case False
      then have "Suc a \<le> i \<and> i < b" using i by simp
      with IH have
        "i + 1 < length s1 \<and> i < length t \<and>
        (\<exists>v. rk4_next f params dt (state' ! i) (t ! i) = Inr v \<and>
             (length v = length (s1 ! (i + 1)) \<or> length v = 1) \<and>
             state' ! (i + 1) = stretch (length (s1 ! (i + 1))) v)" by blast
      then show ?thesis using len1 rows1 by auto
    qed
  qed
  from L U R S show ?case by blast
qed

lemma arange_Inr:
  "step \<noteq> 0 \<Longrightarrow>
     arange start stop step =
       Inr (map (\<lambda>k. start + real k * step) [0..<nat \<lceil>(stop - start) / step\<rceil>])"
  by (simp add: arange_def)

lemma arange_eq_Inr:
  "arange start stop step = Inr ts \<longleftrightarrow>
     step \<noteq> 0 \<and> ts = map (\<lambda>k. start + real k * step) [0..<nat \<lceil>(stop - start) / step\<rceil>]"
  by (auto simp: arange_def)

lemma np_assign_row_zeros:
  "0 < n \<Longrightarrow>
     np_assign_row (np_zeros n (length state0)) 0 state0 =
       Inr ((np_zeros n (length state0))[0 := state0])"
  by (simp add: np_assign_row_def np_zeros_def)

lemma np_assign_row_zeros_empty:
  "np_assign_row (np_zeros 0 d) 0 state0 = Inl IndexError"
  by (simp add: np_assign_row_def np_zeros_def)

lemma runge_kutta4_Inr:
  assumes run: "runge_kutta4 f state0 (t0, tf) dt params = Inr (ts, states)"
  defines "n \<equiv> nat \<lceil>(tf - t0) / dt\<rceil>"
  shows "dt \<noteq> 0" and "0 < n"
    and "ts = map (\<lambda>k. t0 + real k * dt) [0..<n]"
    and "length states = n" and "states ! 0 = state0"
    and "\<forall>j<n. length (states ! j) = length state0"
    and "\<forall>i. i + 1 < n \<longrightarrow>
            (\<exists>v. rk4_next f params dt (states ! i) (t0 + real i * dt) = Inr v \<and>
                 (length v = length state0 \<or> length v = 1) \<and>
                 states ! (i + 1) = stretch (length state0) v)"
proof -
  from run obtain t st0 where
    t: "arange t0 tf dt = Inr t" and
    st0: "np_assign_row (np_zeros (length t) (length state0)) 0 state0 = Inr st0" and
    loop: "rk4_loop f params dt t [0..<length t - 1] st0 = Inr states" and
    ts: "ts = t"
    by (auto simp: runge_kutta4_def and_then_eq_Inr Let_def)
  from t show dt: "dt \<noteq> 0" by (simp add: arange_eq_Inr)
  from t have tmap: "t = map (\<lambda>k. t0 + real k * dt) [0..<n]"
    by (simp add: arange_eq_Inr n_def)
  then show "ts = map (\<lambda>k. t0 + real k * dt) [0..<n]" by (simp add: ts)
  have lt: "length t = n" by (simp add: tmap)
  show npos: "0 < n"
  proof (rule ccontr)
    assume "\<not> 0 < n"
    then have "n = 0" by simp
    with st0 lt show False by (simp add: np_assign_row_zeros_empty)
  qed
  from st0 npos lt have st0_eq: "st0 = (np_zeros n (length state0))[0 := state0]"
    by (simp add: np_assign_row_zeros)
  have len0: "length st0 = n" by (simp add: st0_eq np_zeros_def)
  have rows0: "\<forall>j<n. length (st0 ! j) = length state0"
    using npos by (auto simp: st0_eq np_zeros_def nth_list_update)
  note L = rk4_loop_upt_Inr [OF loop [unfolded lt]]
  from L have L1: "length states = length st0" by (rule conjunct1)
  from L have L2: "\<forall>j\<le>0. states ! j = st0 ! j" by (rule conjunct1 [OF conjunct2])
  from L have L3: "\<forall>j<length st0. length (states ! j) = length (st0 ! j)"
    by (rule conjunct1 [OF conjunct2 [OF conjunct2]])
  from L have L4: "\<forall>i. 0 \<le> i \<and> i < n - 1 \<longrightarrow>
        i + 1 < length st0 \<and> i < length t \<and>
        (\<exists>v. rk4_next f params dt (states ! i) (t ! i) = Inr v \<and>
             (length v = length (st0 ! (i + 1)) \<or> length v = 1) \<and>
             states ! (i + 1) = stretch (length (st0 ! (i + 1))) v)"
    by (rule conjunct2 [OF conjunct2 [OF conjunct2]])
  show "length states = n" using L1 len0 by simp
  show "states ! 0 = state0"
    using L2 npos by (simp add: st0_eq np_zeros_def)
  show "\<forall>j<n. length (states ! j) = length state0"
    using L3 len0 rows0 by simp
  show "\<forall>i. i + 1 < n \<longrightarrow>
            (\<exists>v. rk4_next f params dt (states ! i) (t0 + real i * dt) = Inr v \<and>
                 (length v = length state0 \<or> length v = 1) \<and>
                 states ! (i + 1) = stretch (length state0) v)"
  proof (intro allI impI)
    fix i assume i: "i + 1 < n"
    then have "0 \<le> i \<and> i < n - 1" by simp
    with L4 obtain v where
      v: "rk4_next f params dt (states ! i) (t ! i) = Inr v"
         "length v = length (st0 ! (i + 1)) \<or> length v = 1"
         "states ! (i + 1) = stretch (length (st0 ! (i + 1))) v"
      by blast
    have ti: "t ! i = t0 + real i * dt" using i by (simp add: tmap)
    have row: "length (st0 ! (i + 1)) = length state0" using rows0 i by simp
    from v show "\<exists>v. rk4_next f params dt (states ! i) (t0 + real i * dt) = Inr v \<and>
                 (length v = length state0 \<or> length v = 1) \<and>
                 states ! (i + 1) = stretch (length state0) v"
      unfolding ti row by blast
  qed
qed

lemma np_add_same: "length a = length b \<Longrightarrow> np_add a b = Inr (map2 (+) a b)"
  by (simp add: np_add_def)

lemma rk4_next_field_ok:
  assumes ok: "field_ok f params d" and s: "length s = d"
  shows "\<exists>v. rk4_next f params dt s ti = Inr v \<and> length v = d"
proof -
  from ok s obtain d1 where d1: "f s ti params = Inr d1" "length d1 = d"
    unfolding field_ok_def by blast
  let ?k1 = "np_mul d1 dt"
  let ?s2 = "map2 (+) s (np_div ?k1 2)"
  have s2: "np_add s (np_div ?k1 2) = Inr ?s2" "length ?s2 = d"
    using s d1 by (simp_all add: np_add_same np_div_def np_mul_def)
  from ok s2 obtain d2 where d2: "f ?s2 (ti + dt / 2) params = Inr d2" "length d2 = d"
    unfolding field_ok_def by blast
  let ?k2 = "np_mul d2 dt"
  let ?s3 = "map2 (+) s (np_div ?k2 2)"
  have s3: "np_add s (np_div ?k2 2) = Inr ?s3" "length ?s3 = d"
    using s d2 by (simp_all add: np_add_same np_div_def np_mul_def)
  from ok s3 obtain d3 where d3: "f ?s3 (ti + dt / 2) params = Inr d3" "length d3 = d"
    unfolding field_ok_def by blast
  let ?k3 = "np_mul d3 dt"
  let ?s4 = "map2 (+) s ?k3"
  have s4: "np_add s ?k3 = Inr ?s4" "length ?s4 = d"
    using s d3 by (simp_all add: np_add_same np_mul_def)
  from ok s4 obtain d4 where d4: "f ?s4 (ti + dt) params = Inr d4" "length d4 = d"
    unfolding field_ok_def by blast
  let ?k4 = "np_mul d4 dt"
  let ?a1 = "map2 (+) ?k1 (np_rmul 2 ?k2)"
  have a1: "np_add ?k1 (np_rmul 2 ?k2) = Inr ?a1" "length ?a1 = d"
    using d1 d2 by (simp_all add: np_add_same np_mul_def np_rmul_def)
  let ?a2 = "map2 (+) ?a1 (np_rmul 2 ?k3)"
  have a2: "np_add ?a1 (np_rmul 2 ?k3) = Inr ?a2" "length ?a2 = d"
    using a1 d3 by (simp_all add: np_add_same np_mul_def np_rmul_def)
  let ?a3 = "map2 (+) ?a2 ?k4"
  have a3: "np_add ?a2 ?k4 = Inr ?a3" "length ?a3 = d"
    using a2 d4 by (simp_all add: np_add_same np_mul_def)
  let ?r = "map2 (+) s (np_div ?a3 6)"
  have r: "np_add s (np_div ?a3 6) = Inr ?r" "length ?r = d"
    using s a3 by (simp_all add: np_add_same np_div_def)
  have "rk4_next f params dt s ti = Inr ?r"
    unfolding rk4_next_def Let_def
    by (simp only: d1 s2 d2 s3 d3 s4 d4 a1 a2 a3 r and_then_Inr)
  with r show ?thesis by blast
qed

lemma index_Inr: "i < length xs \<Longrightarrow> index xs i = Inr (xs ! i)"
  by (simp add: index_def)

lemma np_assign_row_same:
  "i < length a \<Longrightarrow> length v = length (a ! i) \<Longrightarrow> np_assign_row a i v = Inr (a[i := v])"
  by (simp add: np_assign_row_def)

lemma rk4_loop_returns:
  assumes nx: "\<forall>s ti. length s = d \<longrightarrow> (\<exists>v. rk4_next f params dt s ti = Inr v \<and> length v = d)"
  shows "(\<forall>j<length state. length (state ! j) = d) \<Longrightarrow> b < length state \<Longrightarrow> b \<le> length t \<Longrightarrow>
         \<exists>state'. rk4_loop f params dt t [a..<b] state = Inr state'"
proof (induction "b - a" arbitrary: a state)
  case 0
  then have "b \<le> a" by simp
  then have e: "[a..<b] = []" by simp
  show ?case unfolding e by simp
next
  case (Suc m)
  then have lt: "a < b" and m: "m = b - Suc a" by arith+
  from lt have upt: "[a..<b] = a # [Suc a..<b]" by (simp add: upt_conv_Cons)
  have a1: "a + 1 < length state" and at: "a < length t"
    using lt Suc.prems by simp_all
  have "length (state ! a) = d" using Suc.prems a1 by simp
  with nx obtain v where v: "rk4_next f params dt (state ! a) (t ! a) = Inr v" "length v = d"
    by blast
  have row: "length (state ! (a + 1)) = d" using Suc.prems a1 by simp
  have body: "rk4_body f params dt t state a = Inr (state[a + 1 := v])"
    using a1 at v row by (simp add: rk4_body_next index_Inr np_assign_row_same)
  have rows': "\<forall>j<length (state[a + 1 := v]). length (state[a + 1 := v] ! j) = d"
    using Suc.prems(1) v(2) a1 by (auto simp: nth_list_update)
  have "\<exists>state'. rk4_loop f params dt t [Suc a..<b] (state[a + 1 := v]) = Inr state'"
    using Suc.hyps(1) [OF m rows'] Suc.prems by simp
  then show ?case by (simp add: upt body)
qed

lemma runge_kutta4_returns:
  assumes nx: "\<forall>s ti. length s = length state0 \<longrightarrow>
                 (\<exists>v. rk4_next f params dt s ti = Inr v \<and> length v = length state0)"
    and dt: "dt \<noteq> 0" and n: "0 < nat \<lceil>(tf - t0) / dt\<rceil>"
  shows "\<exists>ts states. runge_kutta4 f state0 (t0, tf) dt params = Inr (ts, states)"
proof -
  let ?n = "nat \<lceil>(tf - t0) / dt\<rceil>"
  let ?t = "map (\<lambda>k. t0 + real k * dt) [0..<?n]"
  let ?st = "(np_zeros ?n (length state0))[0 := state0]"
  have t: "arange t0 tf dt = Inr ?t" using dt by (rule arange_Inr)
  have lt: "length ?t = ?n" by simp
  have st: "np_assign_row (np_zeros (length ?t) (length state0)) 0 state0 = Inr ?st"
    using n by (simp add: np_assign_row_zeros)
  have rows: "\<forall>j<length ?st. length (?st ! j) = length state0"
    using n by (auto simp: np_zeros_def nth_list_update)
  have "\<exists>state'. rk4_loop f params dt ?t [0..<?n - 1] ?st = Inr state'"
    using n by (intro rk4_loop_returns [OF nx rows]) (simp_all add: np_zeros_def)
  then obtain state' where loop: "rk4_loop f params dt ?t [0..<length ?t - 1] ?st = Inr state'"
    by (auto simp: lt)
  have "runge_kutta4 f state0 (t0, tf) dt params = Inr (?t, state')"
    unfolding runge_kutta4_def Let_def prod.case
    by (simp only: t st loop and_then_Inr)
  then show ?thesis by blast
qed

lemma runge_kutta4_field_ok:
  assumes "field_ok f params (length state0)" and "dt \<noteq> 0" and "0 < nat \<lceil>(tf - t0) / dt\<rceil>"
  shows "\<exists>ts states. runge_kutta4 f state0 (t0, tf) dt params = Inr (ts, states)"
  using assms rk4_next_field_ok [OF assms(1)]
  by (intro runge_kutta4_returns) blast+

lemma sample_count_pos:
  fixes t0 tf dt :: real
  assumes "t0 < tf" and "0 < dt"
  shows "0 < nat \<lceil>(tf - t0) / dt\<rceil>"
proof -
  have "0 < (tf - t0) / dt" using assms by simp
  then have "0 < \<lceil>(tf - t0) / dt\<rceil>" by (simp add: ceiling_less_iff less_ceiling_iff)
  then show ?thesis by simp
qed

section \<open>The motor field\<close>

text \<open>
  C2. For every state \<open>(\<omega>, i)\<close> and parameter tuple \<open>(J, b, Kt, Ke, R, L, u)\<close> with
  \<open>J \<noteq> 0\<close> and \<open>L \<noteq> 0\<close>, \<open>dc_motor_ode\<close> returns the pair
  \<open>((Kt*i - b*\<omega>)/J, (u - R*i - Ke*\<omega>)/L)\<close>, whatever the time argument is.
\<close>

theorem dc_motor_ode_derivative:
  assumes "J \<noteq> 0" and "L \<noteq> 0"
  shows "dc_motor_ode [\<omega>, i] t [J, b, Kt, Ke, R, L, u] =
           Inr [(Kt * i - b * \<omega>) / J, (u - R * i - Ke * \<omega>) / L]"
  using assms by (simp add: dc_motor_ode_def)

theorem dc_motor_ode_derivative_witness:
  "(1/100 :: real) \<noteq> 0 \<and> (1/10 :: real) \<noteq> 0 \<and>
   dc_motor_ode [2, 3] 5 [1/100, 1/10, 1/10, 1/10, 1, 1/10, 1] = Inr [10, -22]"
  using dc_motor_ode_derivative [of "1/100" "1/10" 2 3 5 "1/10" "1/10" "1/10" 1 1]
  by simp

section \<open>The integrator's trajectory\<close>

lemma grid_last_sample:
  fixes t0 tf dt :: real
  assumes "t0 < tf" and "0 < dt"
  defines "n \<equiv> nat \<lceil>(tf - t0) / dt\<rceil>"
  shows "int n = \<lceil>(tf - t0) / dt\<rceil>" and "t0 + real (n - 1) * dt < tf"
    and "tf \<le> t0 + real (n - 1) * dt + dt"
proof -
  let ?x = "(tf - t0) / dt"
  have npos: "0 < n" unfolding n_def using assms(1,2) by (rule sample_count_pos)
  then show n_int: "int n = \<lceil>?x\<rceil>" by (simp add: n_def)
  have rn: "real n = of_int \<lceil>?x\<rceil>"
    using n_int by (metis of_int_of_nat_eq)
  have up: "?x \<le> real n" unfolding rn by (rule le_of_int_ceiling)
  have lo: "real n - 1 < ?x" unfolding rn using ceiling_correct [of ?x] by simp
  have pred: "real (n - 1) = real n - 1" using npos by (simp add: of_nat_diff)
  have xdt: "?x * dt = tf - t0" using assms(2) by simp
  have "(real n - 1) * dt < ?x * dt"
    using lo assms(2) by (rule mult_strict_right_mono)
  then show "t0 + real (n - 1) * dt < tf" unfolding pred xdt by simp
  have "?x * dt \<le> real n * dt"
    using up assms(2) by (intro mult_right_mono) simp_all
  then have "tf - t0 \<le> real n * dt" unfolding xdt .
  then show "tf \<le> t0 + real (n - 1) * dt + dt"
    unfolding pred by (simp add: algebra_simps)
qed

lemma dc_motor_field_ok:
  assumes "J \<noteq> 0" and "L \<noteq> 0"
  shows "field_ok dc_motor_ode [J, b, Kt, Ke, R, L, u] 2"
  unfolding field_ok_def
proof (intro allI impI)
  fix s :: vec and t :: real
  assume "length s = 2"
  then obtain w i where s: "s = [w, i]"
    by (auto simp: length_Suc_conv numeral_2_eq_2)
  show "\<exists>v. dc_motor_ode s t [J, b, Kt, Ke, R, L, u] = Inr v \<and> length v = 2"
    using assms by (simp add: s dc_motor_ode_def)
qed

text \<open>
  C4. For every valid run (\<open>t0 < tf\<close>, \<open>dt > 0\<close>) the returned trajectory is not empty and
  its first state is the supplied initial state itself: no integration step touches it.
\<close>

theorem runge_kutta4_initial_state:
  fixes t0 tf dt :: real
  assumes "t0 < tf" and "0 < dt"
  shows "(field_ok f params (length state0) \<longrightarrow>
            (\<exists>ts states. runge_kutta4 f state0 (t0, tf) dt params = Inr (ts, states))) \<and>
         (\<forall>ts states. runge_kutta4 f state0 (t0, tf) dt params = Inr (ts, states) \<longrightarrow>
            states \<noteq> [] \<and> states ! 0 = state0)"
proof (intro conjI impI allI)
  assume "field_ok f params (length state0)"
  then show "\<exists>ts states. runge_kutta4 f state0 (t0, tf) dt params = Inr (ts, states)"
    using assms by (intro runge_kutta4_field_ok sample_count_pos) simp_all
next
  fix ts states
  assume run: "runge_kutta4 f state0 (t0, tf) dt params = Inr (ts, states)"
  note R = runge_kutta4_Inr [OF run]
  from R(2,4) show "states \<noteq> []" by auto
  from R(5) show "states ! 0 = state0" .
qed

theorem runge_kutta4_initial_state_witness:
  "(0::real) < 1 \<and> (0::real) < 1 / 4 \<and>
   field_ok dc_motor_ode [2, 1, 1, 1, 1, 4, 3] (length [5, 7 :: real]) \<and>
   (\<exists>ts states.
      runge_kutta4 dc_motor_ode [5, 7] (0, 1) (1 / 4) [2, 1, 1, 1, 1, 4, 3] = Inr (ts, states) \<and>
      states \<noteq> [] \<and> states ! 0 = [5, 7])"
proof -
  let ?p = "[2, 1, 1, 1, 1, 4, 3 :: real]"
  have h1: "(0::real) < 1" and h2: "(0::real) < 1 / 4" by simp_all
  have ok: "field_ok dc_motor_ode ?p (length [5, 7 :: real])"
    using dc_motor_field_ok [of 2 4 1 1 1 1 3] by (simp add: numeral_2_eq_2)
  note T = runge_kutta4_initial_state [OF h1 h2, of dc_motor_ode ?p "[5, 7]"]
  from T ok obtain ts states where
    run: "runge_kutta4 dc_motor_ode [5, 7] (0, 1) (1 / 4) ?p = Inr (ts, states)"
    by blast
  with T have "states \<noteq> [] \<and> states ! 0 = [5, 7]" by blast
  with run have "\<exists>ts states.
      runge_kutta4 dc_motor_ode [5, 7] (0, 1) (1 / 4) ?p = Inr (ts, states) \<and>
      states \<noteq> [] \<and> states ! 0 = [5, 7]" by blast
  with h1 h2 ok show ?thesis by (intro conjI)
qed

lemma runge_kutta4_empty_grid:
  assumes "dt \<noteq> 0" and "nat \<lceil>(tf - t0) / dt\<rceil> = 0"
  shows "runge_kutta4 f state0 (t0, tf) dt params = Inl IndexError"
  using assms
  by (simp add: runge_kutta4_def arange_Inr np_assign_row_zeros_empty)

text \<open>
  C6, as the code has it. For \<open>t0 \<ge> tf\<close> and \<open>dt > 0\<close> the sample grid is empty, the
  state buffer has no row, and writing the initial state into row 0 raises IndexError:
  no trajectory is returned. The result is the same for every field, also one that
  raises on every call, so the field is never evaluated.
\<close>

theorem runge_kutta4_empty_span:
  fixes t0 tf dt :: real
  assumes "tf \<le> t0" and "0 < dt"
  shows "runge_kutta4 f state0 (t0, tf) dt params = Inl IndexError"
proof (rule runge_kutta4_empty_grid)
  show "dt \<noteq> 0" using assms(2) by simp
  have "(tf - t0) / dt \<le> 0" using assms by (simp add: divide_le_0_iff)
  then have "\<lceil>(tf - t0) / dt\<rceil> \<le> 0" by (simp add: ceiling_le_iff)
  then show "nat \<lceil>(tf - t0) / dt\<rceil> = 0" by simp
qed

theorem runge_kutta4_empty_span_witness:
  "(0::real) \<le> 2 \<and> (0::real) < 1 / 100 \<and>
   runge_kutta4 (\<lambda>s t p. Inl TypeError) [0, 0] (2, 0) (1 / 100) () = Inl IndexError"
  using runge_kutta4_empty_span [of 0 2 "1 / 100" "\<lambda>s t p. Inl TypeError" "[0, 0]" "()"]
  by simp

theorem runge_kutta4_empty_span_counterexample:
  "runge_kutta4 dc_motor_ode [0, 0] (2, 0) (1 / 100) [1/100, 1/10, 1/10, 1/10, 1, 1/10, 1]
     = Inl IndexError \<and>
   runge_kutta4 dc_motor_ode [0, 0] (2, 0) (1 / 100) [1/100, 1/10, 1/10, 1/10, 1, 1/10, 1]
     \<noteq> Inr ([], [])"
  by (simp add: runge_kutta4_def arange_def np_assign_row_def np_zeros_def)

lemma length_np_mul [simp]: "length (np_mul v c) = length v"
  by (simp add: np_mul_def)

lemma length_np_div [simp]: "length (np_div v c) = length v"
  by (simp add: np_div_def)

lemma length_np_rmul [simp]: "length (np_rmul c v) = length v"
  by (simp add: np_rmul_def)

section \<open>The recurrence and the zero field\<close>

lemma half_step: "np_div (np_mul v dt) 2 = smul (dt / 2) v"
  by (simp add: np_div_def np_mul_def smul_def mult.commute)

lemma full_step: "np_mul v dt = smul dt v"
  by (simp add: np_mul_def smul_def mult.commute)

lemma length_vadd [simp]: "length (vadd a b) = min (length a) (length b)"
  by (simp add: vadd_def)

lemma length_smul [simp]: "length (smul c v) = length v"
  by (simp add: smul_def)

lemma weighted_sum:
  assumes "length k1 = d" "length k2 = d" "length k3 = d" "length k4 = d"
  shows "np_div (map2 (+) (map2 (+) (map2 (+) (np_mul k1 dt) (np_rmul 2 (np_mul k2 dt)))
                   (np_rmul 2 (np_mul k3 dt))) (np_mul k4 dt)) 6 =
         smul (dt / 6) (vadd (vadd (vadd k1 (smul 2 k2)) (smul 2 k3)) k4)"
proof (rule nth_equalityI)
  show "length (np_div (map2 (+) (map2 (+) (map2 (+) (np_mul k1 dt) (np_rmul 2 (np_mul k2 dt)))
                   (np_rmul 2 (np_mul k3 dt))) (np_mul k4 dt)) 6) =
        length (smul (dt / 6) (vadd (vadd (vadd k1 (smul 2 k2)) (smul 2 k3)) k4))"
    using assms by simp
next
  fix i
  assume "i < length (np_div (map2 (+) (map2 (+) (map2 (+) (np_mul k1 dt) (np_rmul 2 (np_mul k2 dt)))
                   (np_rmul 2 (np_mul k3 dt))) (np_mul k4 dt)) 6)"
  then have i: "i < d" using assms by simp
  show "np_div (map2 (+) (map2 (+) (map2 (+) (np_mul k1 dt) (np_rmul 2 (np_mul k2 dt)))
                   (np_rmul 2 (np_mul k3 dt))) (np_mul k4 dt)) 6 ! i =
        smul (dt / 6) (vadd (vadd (vadd k1 (smul 2 k2)) (smul 2 k3)) k4) ! i"
    using i assms
    by (simp add: np_div_def np_mul_def np_rmul_def smul_def vadd_def algebra_simps
        add_divide_distrib)
qed

lemma rk4_next_pure:
  assumes dims: "\<forall>s t. length s = d \<longrightarrow> length (g s t params) = d" and s: "length s = d"
  shows "rk4_next (pure_field g) params dt s ti = Inr (spec_rk4_step g params dt s ti)"
    and "length (spec_rk4_step g params dt s ti) = d"
proof -
  let ?K1 = "g s ti params"
  let ?s2 = "vadd s (smul (dt / 2) ?K1)"
  let ?K2 = "g ?s2 (ti + dt / 2) params"
  let ?s3 = "vadd s (smul (dt / 2) ?K2)"
  let ?K3 = "g ?s3 (ti + dt / 2) params"
  let ?s4 = "vadd s (smul dt ?K3)"
  let ?K4 = "g ?s4 (ti + dt) params"
  let ?a1 = "map2 (+) (np_mul ?K1 dt) (np_rmul 2 (np_mul ?K2 dt))"
  let ?a2 = "map2 (+) ?a1 (np_rmul 2 (np_mul ?K3 dt))"
  let ?a3 = "map2 (+) ?a2 (np_mul ?K4 dt)"
  let ?w = "vadd (vadd (vadd ?K1 (smul 2 ?K2)) (smul 2 ?K3)) ?K4"
  have l1: "length ?K1 = d" using dims s by simp
  have e2: "np_add s (np_div (np_mul ?K1 dt) 2) = Inr ?s2"
    unfolding half_step using s l1 by (simp add: np_add_same vadd_def)
  have ls2: "length ?s2 = d" using s l1 by simp
  have l2: "length ?K2 = d" using dims ls2 by blast
  have e3: "np_add s (np_div (np_mul ?K2 dt) 2) = Inr ?s3"
    unfolding half_step using s l2 by (simp add: np_add_same vadd_def)
  have ls3: "length ?s3 = d" using s l2 by simp
  have l3: "length ?K3 = d" using dims ls3 by blast
  have e4: "np_add s (np_mul ?K3 dt) = Inr ?s4"
    unfolding full_step using s l3 by (simp add: np_add_same vadd_def)
  have ls4: "length ?s4 = d" using s l3 by simp
  have l4: "length ?K4 = d" using dims ls4 by blast
  have a1: "np_add (np_mul ?K1 dt) (np_rmul 2 (np_mul ?K2 dt)) = Inr ?a1"
    using l1 l2 by (simp add: np_add_same)
  have la1: "length ?a1 = d" using l1 l2 by simp
  have a2: "np_add ?a1 (np_rmul 2 (np_mul ?K3 dt)) = Inr ?a2"
    using la1 l3 by (intro np_add_same) simp
  have la2: "length ?a2 = d" using la1 l3 by simp
  have a3: "np_add ?a2 (np_mul ?K4 dt) = Inr ?a3"
    using la2 l4 by (intro np_add_same) simp
  have w: "np_div ?a3 6 = smul (dt / 6) ?w"
    using l1 l2 l3 l4 by (rule weighted_sum)
  have lw: "length ?w = d" using l1 l2 l3 l4 by simp
  have r: "np_add s (smul (dt / 6) ?w) = Inr (vadd s (smul (dt / 6) ?w))"
    using s lw by (simp add: np_add_same vadd_def)
  have "rk4_next (pure_field g) params dt s ti = Inr (vadd s (smul (dt / 6) ?w))"
    unfolding rk4_next_def pure_field_def Let_def
    by (simp only: and_then_Inr e2 e3 e4 a1 a2 a3 w r)
  then show "rk4_next (pure_field g) params dt s ti = Inr (spec_rk4_step g params dt s ti)"
    by (simp add: spec_rk4_step_def Let_def)
  show "length (spec_rk4_step g params dt s ti) = d"
    unfolding spec_rk4_step_def Let_def using s lw by simp
qed

lemma field_ok_pure:
  "(\<forall>s t. length s = d \<longrightarrow> length (g s t params) = d) \<Longrightarrow> field_ok (pure_field g) params d"
  by (simp add: field_ok_def pure_field_def)

lemma stretch_same: "length v = d \<Longrightarrow> stretch d v = v"
  by (simp add: stretch_def)

lemma map2_add_zeros: "map2 (+) s (replicate (length s) (0::real)) = s"
  by (induction s) simp_all

lemma rk4_next_zero_field: "rk4_next zero_field params dt s ti = Inr s"
proof -
  let ?z = "replicate (length s) (0::real)"
  have m: "np_mul ?z dt = ?z" by (simp add: np_mul_def)
  have d2: "np_div ?z 2 = ?z" and d6: "np_div ?z 6 = ?z" by (simp_all add: np_div_def)
  have r: "np_rmul 2 ?z = ?z" by (simp add: np_rmul_def)
  have sz: "np_add s ?z = Inr s" by (simp add: np_add_same map2_add_zeros)
  have zz: "np_add ?z ?z = Inr ?z" by (simp add: np_add_same map2_add_zeros)
  have f: "\<And>t. zero_field s t params = Inr ?z" by (simp add: zero_field_def)
  show ?thesis
    unfolding rk4_next_def Let_def
    by (simp only: f and_then_Inr m d2 d6 r sz zz)
qed

lemma field_ok_zero_field: "field_ok zero_field params d"
  by (simp add: field_ok_def zero_field_def)

text \<open>
  C8. For the field that is zero everywhere, every time span with \<open>t0 < tf\<close> and every
  step \<open>dt > 0\<close>, the integrator returns the grid of sample times together with a
  trajectory in which every state is the initial state.
\<close>

theorem runge_kutta4_zero_field:
  fixes t0 tf dt :: real
  assumes "t0 < tf" and "0 < dt"
  shows "runge_kutta4 zero_field state0 (t0, tf) dt params =
           Inr (map (\<lambda>k. t0 + real k * dt) [0..<nat \<lceil>(tf - t0) / dt\<rceil>],
                replicate (nat \<lceil>(tf - t0) / dt\<rceil>) state0)"
proof -
  let ?n = "nat \<lceil>(tf - t0) / dt\<rceil>"
  let ?f = "zero_field :: 'a field"
  have "\<exists>ts states. runge_kutta4 ?f state0 (t0, tf) dt params = Inr (ts, states)"
    using field_ok_zero_field assms by (intro runge_kutta4_field_ok sample_count_pos) simp_all
  then obtain ts states where
    run: "runge_kutta4 ?f state0 (t0, tf) dt params = Inr (ts, states)" by blast
  note R = runge_kutta4_Inr [OF run]
  have all: "i < ?n \<Longrightarrow> states ! i = state0" for i
  proof (induction i)
    case 0
    show ?case by (rule R(5))
  next
    case (Suc i)
    then have i: "i + 1 < ?n" and prev: "states ! i = state0" by simp_all
    from R(7) i obtain v where
      v: "rk4_next ?f params dt (states ! i) (t0 + real i * dt) = Inr v"
         "states ! (i + 1) = stretch (length state0) v" by blast
    from v(1) have "v = state0" unfolding prev by (simp add: rk4_next_zero_field)
    with v(2) show ?case by (simp add: stretch_same)
  qed
  have "states = replicate ?n state0"
    using R(4) all by (intro nth_equalityI) simp_all
  with run R(3) show ?thesis by simp
qed

theorem runge_kutta4_zero_field_witness:
  "(0::real) < 1 \<and> (0::real) < 1 / 4 \<and>
   runge_kutta4 zero_field [3, 4] (0, 1) (1 / 4) () =
     Inr ([0, 1 / 4, 1 / 2, 3 / 4], [[3, 4], [3, 4], [3, 4], [3, 4]])"
proof -
  have h1: "(0::real) < 1" and h2: "(0::real) < 1 / 4" by simp_all
  have n: "nat \<lceil>(1 - 0) / (1 / 4 :: real)\<rceil> = 4" by simp
  have u: "[0..<4] = [0, 1, 2, 3]" by (simp add: upt_rec)
  have r: "replicate 4 [3, 4 :: real] = [[3, 4], [3, 4], [3, 4], [3, 4]]"
    by (simp add: numeral_eq_Suc)
  from runge_kutta4_zero_field [OF h1 h2, of "[3, 4]" "()"]
  have "runge_kutta4 zero_field [3, 4] (0, 1) (1 / 4) () =
     Inr ([0, 1 / 4, 1 / 2, 3 / 4], [[3, 4], [3, 4], [3, 4], [3, 4]])"
    unfolding n u r by simp
  with h1 h2 show ?thesis by (intro conjI)
qed

section \<open>Calls on the store\<close>

lemma get_vec_Vec: "a < length h \<Longrightarrow> h ! a = Vec v \<Longrightarrow> get_vec h a = Inr v"
  by (simp add: get_vec_def)

lemma get_mat_Mat: "a < length h \<Longrightarrow> h ! a = Mat m \<Longrightarrow> get_mat h a = Inr m"
  by (simp add: get_mat_def)

lemma get_params_Params: "a < length h \<Longrightarrow> h ! a = Params p \<Longrightarrow> get_params h a = Inr p"
  by (simp add: get_params_def)

lemma st_rk4_body_refines:
  assumes "a_state < length h" "h ! a_state = Mat state"
    and "a_t < length h" "h ! a_t = Vec t"
    and "a_params < length h" "h ! a_params = Params p"
  shows "st_rk4_body f a_params dt a_t a_state i h =
           (case rk4_body f p dt t state i of
              Inl e \<Rightarrow> Inl e
            | Inr state' \<Rightarrow> Inr (h[a_state := Mat state']))"
  using assms
  by (simp add: st_rk4_body_def get_vec_Vec get_mat_Mat get_params_Params and_then_def)

lemma st_rk4_loop_refines:
  assumes "a_t < length h" "h ! a_t = Vec t"
    and "a_params < length h" "h ! a_params = Params p"
  shows "a_state < length h \<Longrightarrow> h ! a_state = Mat state \<Longrightarrow>
         st_rk4_loop f a_params dt a_t a_state is h =
           (case rk4_loop f p dt t is state of
              Inl e \<Rightarrow> Inl e
            | Inr state' \<Rightarrow> Inr (h[a_state := Mat state']))"
  using assms
proof (induction "is" arbitrary: h state)
  case Nil
  then have "h[a_state := Mat state] = h" by (metis list_update_id)
  then show ?case by simp
next
  case (Cons i "is")
  note B = st_rk4_body_refines [OF Cons.prems(1,2,3,4,5,6), of f dt i]
  show ?case
  proof (cases "rk4_body f p dt t state i")
    case (Inl e)
    then show ?thesis using B by simp
  next
    case (Inr state1)
    let ?h1 = "h[a_state := Mat state1]"
    have ne_t: "a_state \<noteq> a_t" and ne_p: "a_state \<noteq> a_params"
      using Cons.prems by auto
    have body: "st_rk4_body f a_params dt a_t a_state i h = Inr ?h1" using B Inr by simp
    have IH: "st_rk4_loop f a_params dt a_t a_state is ?h1 =
           (case rk4_loop f p dt t is state1 of
              Inl e \<Rightarrow> Inl e
            | Inr state' \<Rightarrow> Inr (?h1[a_state := Mat state']))"
      using Cons.prems ne_t ne_p by (intro Cons.IH) simp_all
    show ?thesis
      using body Inr IH by (simp split: sum.splits)
  qed
qed

lemma st_runge_kutta4_refines:
  assumes s0: "a_state0 < length h" "h ! a_state0 = Vec state0"
    and p: "a_params < length h" "h ! a_params = Params params"
  shows "st_runge_kutta4 f a_state0 t_span dt a_params h =
           (case runge_kutta4 f state0 t_span dt params of
              Inl e \<Rightarrow> Inl e
            | Inr (t, states) \<Rightarrow>
                Inr ((length h, Suc (length h)), h @ [Vec t, Mat states]))"
proof (cases t_span)
  case (Pair t0 tf)
  show ?thesis
  proof (cases "arange t0 tf dt")
    case (Inl e)
    then show ?thesis
      by (simp add: Pair st_runge_kutta4_def runge_kutta4_def)
  next
    case (Inr t)
    let ?n = "length t"
    let ?z = "np_zeros ?n (length state0)"
    let ?h1 = "h @ [Vec t]"
    let ?h2 = "h @ [Vec t, Mat ?z]"
    have g1: "get_vec ?h1 a_state0 = Inr state0"
      using s0 by (simp add: get_vec_def nth_append)
    have g2: "get_vec ?h2 a_state0 = Inr state0"
      using s0 by (simp add: get_vec_def nth_append)
    have gm: "get_mat ?h2 (Suc (length h)) = Inr ?z"
      by (simp add: get_mat_def nth_append)
    have unfold_st: "st_runge_kutta4 f a_state0 t_span dt a_params h =
        and_then (st_assign_row ?h2 (Suc (length h)) 0 a_state0) (\<lambda>h3.
        and_then (st_rk4_loop f a_params dt (length h) (Suc (length h)) [0..<?n - 1] h3) (\<lambda>h4.
        Inr ((length h, Suc (length h)), h4)))"
      by (simp add: Pair st_runge_kutta4_def Inr alloc_def g1 Let_def)
    have unfold_pure: "runge_kutta4 f state0 t_span dt params =
        and_then (np_assign_row ?z 0 state0) (\<lambda>state.
        and_then (rk4_loop f params dt t [0..<?n - 1] state) (\<lambda>state'.
        Inr (t, state')))"
      by (simp add: Pair runge_kutta4_def Inr Let_def)
    show ?thesis
    proof (cases "np_assign_row ?z 0 state0")
      case (Inl e)
      then have "st_assign_row ?h2 (Suc (length h)) 0 a_state0 = Inl e"
        by (simp add: st_assign_row_def gm g2)
      then show ?thesis unfolding unfold_st unfold_pure by (simp add: Inl)
    next
      case st: (Inr st0)
      let ?h3 = "h @ [Vec t, Mat st0]"
      have a3: "st_assign_row ?h2 (Suc (length h)) 0 a_state0 = Inr ?h3"
        by (simp add: st_assign_row_def gm g2 st list_update_append)
      have L: "st_rk4_loop f a_params dt (length h) (Suc (length h)) [0..<?n - 1] ?h3 =
           (case rk4_loop f params dt t [0..<?n - 1] st0 of
              Inl e \<Rightarrow> Inl e
            | Inr state' \<Rightarrow> Inr (?h3[Suc (length h) := Mat state']))"
        using p by (intro st_rk4_loop_refines) (simp_all add: nth_append)
      show ?thesis
        unfolding unfold_st unfold_pure a3 st and_then_Inr L
        by (cases "rk4_loop f params dt t [0..<?n - 1] st0")
          (simp_all add: list_update_append)
    qed
  qed
qed

text \<open>
  C10. A call that returns has not changed the caller's objects: \<open>state0\<close> and
  \<open>params\<close> hold what they held, as does every other object of the store before the
  call. The trajectory buffer is a new object, at an address that was not in use, so it
  is neither \<open>state0\<close> nor \<open>params\<close>; its first row holds the values of \<open>state0\<close>, and
  writing anything at the buffer's address afterwards leaves \<open>state0\<close> as it was.
\<close>

theorem st_runge_kutta4_frame:
  assumes s0: "a_state0 < length h" "h ! a_state0 = Vec state0"
    and p: "a_params < length h" "h ! a_params = Params params"
    and run: "st_runge_kutta4 f a_state0 t_span dt a_params h = Inr ((a_t, a_state), h')"
  shows "h' ! a_state0 = Vec state0 \<and> h' ! a_params = Params params \<and>
         take (length h) h' = h \<and>
         length h \<le> a_t \<and> length h \<le> a_state \<and> a_state < length h' \<and>
         a_state \<noteq> a_state0 \<and> a_state \<noteq> a_params \<and>
         (\<exists>states. h' ! a_state = Mat states \<and> states \<noteq> [] \<and> states ! 0 = state0) \<and>
         (h'[a_state := ob]) ! a_state0 = Vec state0"
proof -
  note Rf = st_runge_kutta4_refines [OF s0 p, of f t_span dt]
  from run Rf obtain t states where
    pure: "runge_kutta4 f state0 t_span dt params = Inr (t, states)" and
    at: "a_t = length h" and ast: "a_state = Suc (length h)" and
    h': "h' = h @ [Vec t, Mat states]"
    by (auto split: sum.splits)
  obtain t0 tf where span: "t_span = (t0, tf)" by (cases t_span)
  note R = runge_kutta4_Inr [OF pure [unfolded span]]
  have c1: "h' ! a_state0 = Vec state0" using s0 by (simp add: h' nth_append)
  have c2: "h' ! a_params = Params params" using p by (simp add: h' nth_append)
  have c3: "take (length h) h' = h" by (simp add: h')
  have c4: "length h \<le> a_t" by (simp add: at)
  have c5: "length h \<le> a_state" by (simp add: ast)
  have c6: "a_state < length h'" by (simp add: ast h')
  have c7: "a_state \<noteq> a_state0" using s0(1) by (simp add: ast)
  have c8: "a_state \<noteq> a_params" using p(1) by (simp add: ast)
  have m: "h' ! a_state = Mat states" by (simp add: ast h' nth_append)
  have ne: "states \<noteq> []" using R(2,4) by auto
  have "h' ! a_state = Mat states \<and> states \<noteq> [] \<and> states ! 0 = state0"
    using m ne R(5) by (intro conjI)
  then have c9: "\<exists>states. h' ! a_state = Mat states \<and> states \<noteq> [] \<and> states ! 0 = state0"
    by (intro exI)
  have c10: "(h'[a_state := ob]) ! a_state0 = Vec state0"
    using c7 c1 by simp
  from c1 c2 c3 c4 c5 c6 c7 c8 c9 c10 show ?thesis by (intro conjI)
qed

theorem st_runge_kutta4_frame_witness:
  "\<exists>a_t a_state h'.
     st_runge_kutta4 dc_motor_ode 0 (0, 1) (1 / 4) 1
       [Vec [5, 7], Params [2, 1, 1, 1, 1, 4, 3]] = Inr ((a_t, a_state), h') \<and>
     h' ! 0 = Vec [5, 7] \<and> h' ! 1 = Params [2, 1, 1, 1, 1, 4, 3] \<and>
     2 \<le> a_state \<and> a_state < length h' \<and>
     (h'[a_state := Vec []]) ! 0 = Vec [5, 7]"
proof -
  let ?p = "[2, 1, 1, 1, 1, 4, 3 :: real]"
  let ?h = "[Vec [5, 7], Params ?p]"
  have s0: "0 < length ?h" "?h ! 0 = Vec [5, 7]" by simp_all
  have p: "1 < length ?h" "?h ! 1 = Params ?p" by simp_all
  have ok: "field_ok dc_motor_ode ?p (length [5, 7 :: real])"
    using dc_motor_field_ok [of 2 4 1 1 1 1 3] by (simp add: numeral_2_eq_2)
  have "\<exists>ts states. runge_kutta4 dc_motor_ode [5, 7] (0, 1) (1 / 4) ?p = Inr (ts, states)"
    using ok by (intro runge_kutta4_field_ok) simp_all
  then obtain ts states where
    pure: "runge_kutta4 dc_motor_ode [5, 7] (0, 1) (1 / 4) ?p = Inr (ts, states)" by blast
  have run: "st_runge_kutta4 dc_motor_ode 0 (0, 1) (1 / 4) 1 ?h =
               Inr ((2, 3), ?h @ [Vec ts, Mat states])"
    unfolding st_runge_kutta4_refines [OF s0 p] pure by simp
  note F = st_runge_kutta4_frame [OF s0 p run, of "Vec []"]
  from F have
    "st_runge_kutta4 dc_motor_ode 0 (0, 1) (1 / 4) 1 ?h =
       Inr ((2, 3), ?h @ [Vec ts, Mat states]) \<and>
     (?h @ [Vec ts, Mat states]) ! 0 = Vec [5, 7] \<and>
     (?h @ [Vec ts, Mat states]) ! 1 = Params ?p \<and>
     2 \<le> (3::nat) \<and> 3 < length (?h @ [Vec ts, Mat states]) \<and>
     ((?h @ [Vec ts, Mat states])[3 := Vec []]) ! 0 = Vec [5, 7]"
    using run by simp
  then show ?thesis by blast
qed

section \<open>Facts about the rounded embedding\<close>

lemma rne_bounds: "\<lfloor>x\<rfloor> \<le> rne x \<and> rne x \<le> \<lfloor>x\<rfloor> + 1"
  by (simp add: rne_def Let_def)

lemma powr_int_diff: "(2::real) powr of_int (52 - int k) = 2 ^ 52 / 2 ^ k"
proof -
  have "(2::real) powr of_int (52 - int k) = 2 powr (52 - real k)" by simp
  also have "\<dots> = 2 powr 52 / 2 powr real k" by (simp add: powr_diff)
  also have "\<dots> = 2 ^ 52 / 2 ^ k" by (simp add: powr_realpow)
  finally show ?thesis .
qed

lemma round64_scaled:
  assumes lo: "2 ^ 52 \<le> \<bar>x\<bar> * 2 ^ k" and hi: "\<bar>x\<bar> * 2 ^ k < 2 ^ 53"
  shows "round64 x = of_int (rne (x * 2 ^ k)) / 2 ^ k"
proof -
  have x: "x \<noteq> 0" using lo by auto
  have p: "(0::real) < 2 ^ k" by simp
  have "(2::real) ^ 52 / 2 ^ k \<le> \<bar>x\<bar>"
    using lo p by (simp add: pos_divide_le_eq)
  then have a: "2 powr of_int (52 - int k) \<le> \<bar>x\<bar>"
    by (simp only: powr_int_diff)
  have "(2::real) powr of_int (52 - int k + 1) = 2 powr (1 + of_int (52 - int k))"
    by (simp add: add.commute)
  also have "\<dots> = 2 powr 1 * 2 powr of_int (52 - int k)" by (rule powr_add)
  also have "\<dots> = 2 * (2 ^ 52 / 2 ^ k)" by (simp only: powr_int_diff powr_one_eq_one) simp
  finally have up: "(2::real) powr of_int (52 - int k + 1) = 2 ^ 53 / 2 ^ k" by simp
  have "\<bar>x\<bar> < (2::real) ^ 53 / 2 ^ k"
    using hi p by (simp add: pos_less_divide_eq)
  then have b: "\<bar>x\<bar> < 2 powr of_int (52 - int k + 1)"
    by (simp only: up)
  have "\<lfloor>log 2 \<bar>x\<bar>\<rfloor> = 52 - int k"
    using x a b by (subst floor_log_eq_powr_iff) simp_all
  then have e: "\<lfloor>log 2 \<bar>x\<bar>\<rfloor> - 52 = - int k" by simp
  have q: "(2::real) powr of_int (- int k) = 1 / 2 ^ k"
    by (simp add: powr_minus powr_realpow divide_inverse)
  have "round64 x = of_int (rne (x / 2 powr of_int (- int k))) * 2 powr of_int (- int k)"
    using x by (simp only: round64_def Let_def e if_False)
  also have "\<dots> = of_int (rne (x * 2 ^ k)) / 2 ^ k"
    by (simp only: q) simp
  finally show ?thesis .
qed

lemma rk4r_body_next:
  "rk4_body_r r f params dt t state i =
     and_then (index state i) (\<lambda>s.
     and_then (index t i) (\<lambda>ti.
     and_then (rk4_next_r r f params dt s ti) (\<lambda>s_next.
     np_assign_row state (i + 1) s_next)))"
  unfolding rk4_body_r_def rk4_next_r_def and_then_def Let_def
  by (simp split: sum.splits)

lemma rk4r_body_Inr:
  assumes "rk4_body_r r f params dt t state i = Inr state'"
  shows "i + 1 < length state \<and> i < length t \<and>
         (\<exists>v. rk4_next_r r f params dt (state ! i) (t ! i) = Inr v \<and>
              (length v = length (state ! (i + 1)) \<or> length v = 1) \<and>
              state' = state[i + 1 := stretch (length (state ! (i + 1))) v])"
  using assms
  by (auto simp: rk4r_body_next and_then_eq_Inr index_def split: if_splits
           dest!: np_assign_row_Inr)

lemma rk4r_loop_upt_Inr:
  "rk4_loop_r r f params dt t [a..<b] state = Inr state' \<Longrightarrow>
     length state' = length state \<and>
     (\<forall>j\<le>a. state' ! j = state ! j) \<and>
     (\<forall>j<length state. length (state' ! j) = length (state ! j)) \<and>
     (\<forall>i. a \<le> i \<and> i < b \<longrightarrow>
        i + 1 < length state \<and> i < length t \<and>
        (\<exists>v. rk4_next_r r f params dt (state' ! i) (t ! i) = Inr v \<and>
             (length v = length (state ! (i + 1)) \<or> length v = 1) \<and>
             state' ! (i + 1) = stretch (length (state ! (i + 1))) v))"
proof (induction "b - a" arbitrary: a state)
  case 0
  then have "b \<le> a" by simp
  then have "[a..<b] = []" by simp
  with "0.prems" have "state' = state" by simp
  with \<open>b \<le> a\<close> show ?case by auto
next
  case (Suc m)
  then have lt: "a < b" and m: "m = b - Suc a" by arith+
  from lt have upt: "[a..<b] = a # [Suc a..<b]" by (simp add: upt_conv_Cons)
  from Suc.prems obtain s1 where
    body: "rk4_body_r r f params dt t state a = Inr s1" and
    rest: "rk4_loop_r r f params dt t [Suc a..<b] s1 = Inr state'"
    by (auto simp: upt split: sum.splits)
  from rk4r_body_Inr [OF body] obtain v where
    a1: "a + 1 < length state" and at: "a < length t" and
    nx: "rk4_next_r r f params dt (state ! a) (t ! a) = Inr v" and
    lv: "length v = length (state ! (a + 1)) \<or> length v = 1" and
    s1: "s1 = state[a + 1 := stretch (length (state ! (a + 1))) v]"
    by blast
  note IH = Suc.hyps(1) [OF m rest]
  have len1: "length s1 = length state" by (simp add: s1)
  have rows1: "\<forall>j<length state. length (s1 ! j) = length (state ! j)"
  proof (intro allI impI)
    fix j assume j: "j < length state"
    show "length (s1 ! j) = length (state ! j)"
    proof (cases "j = a + 1")
      case True
      have "length (stretch (length (state ! (a + 1))) v) = length (state ! (a + 1))"
        using lv by (rule length_stretch)
      then show ?thesis using True a1 by (simp add: s1)
    next
      case False
      then show ?thesis by (simp add: s1)
    qed
  qed
  have L: "length state' = length state" using IH len1 by simp
  have U: "\<forall>j\<le>a. state' ! j = state ! j"
    using IH by (auto simp: s1)
  have R: "\<forall>j<length state. length (state' ! j) = length (state ! j)"
    using IH len1 rows1 by auto
  have S: "\<forall>i. a \<le> i \<and> i < b \<longrightarrow>
        i + 1 < length state \<and> i < length t \<and>
        (\<exists>v. rk4_next_r r f params dt (state' ! i) (t ! i) = Inr v \<and>
             (length v = length (state ! (i + 1)) \<or> length v = 1) \<and>
             state' ! (i + 1) = stretch (length (state ! (i + 1))) v)"
  proof (intro allI impI)
    fix i assume i: "a \<le> i \<and> i < b"
    show "i + 1 < length state \<and> i < length t \<and>
        (\<exists>v. rk4_next_r r f params dt (state' ! i) (t ! i) = Inr v \<and>
             (length v = length (state ! (i + 1)) \<or> length v = 1) \<and>
             state' ! (i + 1) = stretch (length (state ! (i + 1))) v)"
    proof (cases "i = a")
      case True
      have "state' ! a = state ! a" using U by simp
      moreover have "state' ! (a + 1) = s1 ! (a + 1)" using IH by simp
      then have "state' ! (a + 1) = stretch (length (state ! (a + 1))) v"
        using a1 by (simp add: s1)
      ultimately show ?thesis using True a1 at nx lv by auto
    next
      case False
      then have "Suc a \<le> i \<and> i < b" using i by simp
      with IH have
        "i + 1 < length s1 \<and> i < length t \<and>
        (\<exists>v. rk4_next_r r f params dt (state' ! i) (t ! i) = Inr v \<and>
             (length v = length (s1 ! (i + 1)) \<or> length v = 1) \<and>
             state' ! (i + 1) = stretch (length (s1 ! (i + 1))) v)" by blast
      then show ?thesis using len1 rows1 by auto
    qed
  qed
  from L U R S show ?case by blast
qed

lemma npr_add_same: "length a = length b \<Longrightarrow> np_add_r r a b = Inr (map2 (\<lambda>x y. r (x + y)) a b)"
  by (simp add: np_add_r_def)

lemma rk4r_next_field_ok:
  assumes ok: "field_ok f params d" and s: "length s = d"
  shows "\<exists>v. rk4_next_r r f params dt s ti = Inr v \<and> length v = d"
proof -
  from ok s obtain d1 where d1: "f s ti params = Inr d1" "length d1 = d"
    unfolding field_ok_def by blast
  let ?k1 = "np_mul_r r d1 dt"
  let ?s2 = "map2 (\<lambda>x y. r (x + y)) s (np_div_r r ?k1 2)"
  have s2: "np_add_r r s (np_div_r r ?k1 2) = Inr ?s2" "length ?s2 = d"
    using s d1 by (simp_all add: npr_add_same np_div_r_def np_mul_r_def)
  from ok s2 obtain d2 where d2: "f ?s2 (r (ti + r (dt / 2))) params = Inr d2" "length d2 = d"
    unfolding field_ok_def by blast
  let ?k2 = "np_mul_r r d2 dt"
  let ?s3 = "map2 (\<lambda>x y. r (x + y)) s (np_div_r r ?k2 2)"
  have s3: "np_add_r r s (np_div_r r ?k2 2) = Inr ?s3" "length ?s3 = d"
    using s d2 by (simp_all add: npr_add_same np_div_r_def np_mul_r_def)
  from ok s3 obtain d3 where d3: "f ?s3 (r (ti + r (dt / 2))) params = Inr d3" "length d3 = d"
    unfolding field_ok_def by blast
  let ?k3 = "np_mul_r r d3 dt"
  let ?s4 = "map2 (\<lambda>x y. r (x + y)) s ?k3"
  have s4: "np_add_r r s ?k3 = Inr ?s4" "length ?s4 = d"
    using s d3 by (simp_all add: npr_add_same np_mul_r_def)
  from ok s4 obtain d4 where d4: "f ?s4 (r (ti + dt)) params = Inr d4" "length d4 = d"
    unfolding field_ok_def by blast
  let ?k4 = "np_mul_r r d4 dt"
  let ?a1 = "map2 (\<lambda>x y. r (x + y)) ?k1 (np_rmul_r r 2 ?k2)"
  have a1: "np_add_r r ?k1 (np_rmul_r r 2 ?k2) = Inr ?a1" "length ?a1 = d"
    using d1 d2 by (simp_all add: npr_add_same np_mul_r_def np_rmul_r_def)
  let ?a2 = "map2 (\<lambda>x y. r (x + y)) ?a1 (np_rmul_r r 2 ?k3)"
  have a2: "np_add_r r ?a1 (np_rmul_r r 2 ?k3) = Inr ?a2" "length ?a2 = d"
    using a1 d3 by (simp_all add: npr_add_same np_mul_r_def np_rmul_r_def)
  let ?a3 = "map2 (\<lambda>x y. r (x + y)) ?a2 ?k4"
  have a3: "np_add_r r ?a2 ?k4 = Inr ?a3" "length ?a3 = d"
    using a2 d4 by (simp_all add: npr_add_same np_mul_r_def)
  let ?r = "map2 (\<lambda>x y. r (x + y)) s (np_div_r r ?a3 6)"
  have r: "np_add_r r s (np_div_r r ?a3 6) = Inr ?r" "length ?r = d"
    using s a3 by (simp_all add: npr_add_same np_div_r_def)
  have "rk4_next_r r f params dt s ti = Inr ?r"
    unfolding rk4_next_r_def Let_def
    by (simp only: d1 s2 d2 s3 d3 s4 d4 a1 a2 a3 r and_then_Inr)
  with r show ?thesis by blast
qed

lemma rk4r_loop_returns:
  assumes nx: "\<forall>s ti. length s = d \<longrightarrow> (\<exists>v. rk4_next_r r f params dt s ti = Inr v \<and> length v = d)"
  shows "(\<forall>j<length state. length (state ! j) = d) \<Longrightarrow> b < length state \<Longrightarrow> b \<le> length t \<Longrightarrow>
         \<exists>state'. rk4_loop_r r f params dt t [a..<b] state = Inr state'"
proof (induction "b - a" arbitrary: a state)
  case 0
  then have "b \<le> a" by simp
  then have e: "[a..<b] = []" by simp
  show ?case unfolding e by simp
next
  case (Suc m)
  then have lt: "a < b" and m: "m = b - Suc a" by arith+
  from lt have upt: "[a..<b] = a # [Suc a..<b]" by (simp add: upt_conv_Cons)
  have a1: "a + 1 < length state" and at: "a < length t"
    using lt Suc.prems by simp_all
  have "length (state ! a) = d" using Suc.prems a1 by simp
  with nx obtain v where v: "rk4_next_r r f params dt (state ! a) (t ! a) = Inr v" "length v = d"
    by blast
  have row: "length (state ! (a + 1)) = d" using Suc.prems a1 by simp
  have body: "rk4_body_r r f params dt t state a = Inr (state[a + 1 := v])"
    using a1 at v row by (simp add: rk4r_body_next index_Inr np_assign_row_same)
  have rows': "\<forall>j<length (state[a + 1 := v]). length (state[a + 1 := v] ! j) = d"
    using Suc.prems(1) v(2) a1 by (auto simp: nth_list_update)
  have "\<exists>state'. rk4_loop_r r f params dt t [Suc a..<b] (state[a + 1 := v]) = Inr state'"
    using Suc.hyps(1) [OF m rows'] Suc.prems by simp
  then show ?case by (simp add: upt body)
qed

lemma npr_add_length:
  assumes "length a = length b \<or> length a = 1 \<or> length b = 1"
  shows "\<exists>w. np_add_r r a b = Inr w \<and> length w = (if length a = 1 then length b else length a)"
  using assms by (auto simp: np_add_r_def)

lemma npr_add_mismatch:
  "length a \<noteq> length b \<Longrightarrow> length a \<noteq> 1 \<Longrightarrow> length b \<noteq> 1 \<Longrightarrow> np_add_r r a b = Inl ValueError"
  by (simp add: np_add_r_def)

lemma length_npr_mul [simp]: "length (np_mul_r r v c) = length v"
  by (simp add: np_mul_r_def)

lemma length_npr_div [simp]: "length (np_div_r r v c) = length v"
  by (simp add: np_div_r_def)

lemma length_npr_rmul [simp]: "length (np_rmul_r r c v) = length v"
  by (simp add: np_rmul_r_def)

lemma rk4r_next_const_length:
  assumes f: "\<forall>s t. \<exists>v. f s t params = Inr v \<and> length v = m"
    and compat: "length s = m \<or> length s = 1 \<or> m = 1"
  shows "\<exists>v. rk4_next_r r f params dt s ti = Inr v \<and> length v = (if m = 1 then length s else m)"
proof -
  from f obtain d1 where d1: "f s ti params = Inr d1" "length d1 = m" by blast
  let ?k1 = "np_mul_r r d1 dt"
  from npr_add_length [where r = r and a = s and b = "np_div_r r ?k1 2"] compat d1(2)
  obtain s2 where s2: "np_add_r r s (np_div_r r ?k1 2) = Inr s2" by auto
  from f obtain d2 where d2: "f s2 (r (ti + r (dt / 2))) params = Inr d2" "length d2 = m" by blast
  let ?k2 = "np_mul_r r d2 dt"
  from npr_add_length [where r = r and a = s and b = "np_div_r r ?k2 2"] compat d2(2)
  obtain s3 where s3: "np_add_r r s (np_div_r r ?k2 2) = Inr s3" by auto
  from f obtain d3 where d3: "f s3 (r (ti + r (dt / 2))) params = Inr d3" "length d3 = m" by blast
  let ?k3 = "np_mul_r r d3 dt"
  from npr_add_length [where r = r and a = s and b = ?k3] compat d3(2)
  obtain s4 where s4: "np_add_r r s ?k3 = Inr s4" by auto
  from f obtain d4 where d4: "f s4 (r (ti + dt)) params = Inr d4" "length d4 = m" by blast
  let ?k4 = "np_mul_r r d4 dt"
  from npr_add_length [where r = r and a = ?k1 and b = "np_rmul_r r 2 ?k2"] d1(2) d2(2)
  obtain a1 where a1: "np_add_r r ?k1 (np_rmul_r r 2 ?k2) = Inr a1" "length a1 = m" by auto
  from npr_add_length [where r = r and a = a1 and b = "np_rmul_r r 2 ?k3"] a1(2) d3(2)
  obtain a2 where a2: "np_add_r r a1 (np_rmul_r r 2 ?k3) = Inr a2" "length a2 = m" by auto
  from npr_add_length [where r = r and a = a2 and b = ?k4] a2(2) d4(2)
  obtain a3 where a3: "np_add_r r a2 ?k4 = Inr a3" "length a3 = m" by auto
  from npr_add_length [where r = r and a = s and b = "np_div_r r a3 6"] compat a3(2)
  obtain res where res: "np_add_r r s (np_div_r r a3 6) = Inr res"
    "length res = (if length s = 1 then m else length s)" by auto
  have "rk4_next_r r f params dt s ti = Inr res"
    unfolding rk4_next_r_def Let_def
    by (simp only: d1 s2 d2 s3 d3 s4 d4 a1 a2 a3 res and_then_Inr)
  moreover have "length res = (if m = 1 then length s else m)"
    using res(2) compat by auto
  ultimately show ?thesis by blast
qed

lemma rk4r_next_mismatch:
  assumes f: "\<forall>s t. \<exists>v. f s t params = Inr v \<and> length v = m"
    and "m \<noteq> 1" and "length s \<noteq> 1" and "m \<noteq> length s"
  shows "rk4_next_r r f params dt s ti = Inl ValueError"
proof -
  from f obtain d1 where d1: "f s ti params = Inr d1" "length d1 = m" by blast
  have "np_add_r r s (np_div_r r (np_mul_r r d1 dt) 2) = Inl ValueError"
    using assms(2-4) d1(2) by (intro npr_add_mismatch) simp_all
  then show ?thesis
    unfolding rk4_next_r_def Let_def by (simp only: d1 and_then_Inr and_then_Inl)
qed

lemma rk4r_body_mismatch:
  assumes f: "\<forall>s t. \<exists>v. f s t params = Inr v \<and> length v = m"
    and m1: "m \<noteq> 1" and md: "m \<noteq> length (state ! i)"
    and i1: "i + 1 < length state" and it: "i < length t"
    and row: "length (state ! (i + 1)) = length (state ! i)"
  shows "rk4_body_r r f params dt t state i = Inl ValueError"
proof (cases "length (state ! i) = 1")
  case False
  then have "rk4_next_r r f params dt (state ! i) (t ! i) = Inl ValueError"
    using f m1 md by (intro rk4r_next_mismatch) simp_all
  then show ?thesis
    using i1 it by (simp add: rk4r_body_next index_Inr)
next
  case True
  with rk4r_next_const_length
    [where f = f and params = params and m = m and s = "state ! i" and dt = dt and ti = "t ! i",
     OF f] m1
  obtain v where v: "rk4_next_r r f params dt (state ! i) (t ! i) = Inr v" "length v = m"
    by auto
  have "np_assign_row state (i + 1) v = Inl ValueError"
    using i1 v(2) m1 md row by (simp add: np_assign_row_def)
  then show ?thesis
    using i1 it v(1) by (simp add: rk4r_body_next index_Inr)
qed

lemma arange_r_Inr:
  "step \<noteq> 0 \<Longrightarrow>
     arange_r r start stop step =
       Inr (grid_r r start step (nat \<lceil>r (r (stop - start) / step)\<rceil>))"
  by (simp add: arange_r_def)

lemma arange_r_eq_Inr:
  "arange_r r start stop step = Inr ts \<longleftrightarrow>
     step \<noteq> 0 \<and> ts = grid_r r start step (nat \<lceil>r (r (stop - start) / step)\<rceil>)"
  by (auto simp: arange_r_def)

lemma length_grid_r [simp]: "length (grid_r r start step n) = n"
  by (simp add: grid_r_def)

lemma grid_r_nth:
  "k < n \<Longrightarrow> grid_r r start step n ! k =
     (if k = 0 then start
      else if k = 1 then r (start + step)
      else r (start + r (real k * r (r (start + step) - start))))"
  by (simp add: grid_r_def)

lemma rk4r_run_Inr:
  assumes run: "runge_kutta4_r r f state0 (t0, tf) dt params = Inr (ts, states)"
  shows "arange_r r t0 tf dt = Inr ts" and "0 < length ts"
    and "length states = length ts" and "states ! 0 = state0"
    and "\<forall>j<length ts. length (states ! j) = length state0"
    and "\<forall>i. i + 1 < length ts \<longrightarrow>
            (\<exists>v. rk4_next_r r f params dt (states ! i) (ts ! i) = Inr v \<and>
                 (length v = length state0 \<or> length v = 1) \<and>
                 states ! (i + 1) = stretch (length state0) v)"
proof -
  let ?n = "length ts"
  from run obtain st0 where
    t: "arange_r r t0 tf dt = Inr ts" and
    st0: "np_assign_row (np_zeros ?n (length state0)) 0 state0 = Inr st0" and
    loop: "rk4_loop_r r f params dt ts [0..<?n - 1] st0 = Inr states"
    by (auto simp: runge_kutta4_r_def and_then_eq_Inr Let_def)
  show "arange_r r t0 tf dt = Inr ts" by (rule t)
  show npos: "0 < ?n"
  proof (rule ccontr)
    assume "\<not> 0 < ?n"
    then have "?n = 0" by simp
    with st0 show False by (simp add: np_assign_row_zeros_empty)
  qed
  from st0 npos have st0_eq: "st0 = (np_zeros ?n (length state0))[0 := state0]"
    by (simp add: np_assign_row_zeros)
  have len0: "length st0 = ?n" by (simp add: st0_eq np_zeros_def)
  have rows0: "\<forall>j<?n. length (st0 ! j) = length state0"
    using npos by (auto simp: st0_eq np_zeros_def nth_list_update)
  note L = rk4r_loop_upt_Inr [OF loop]
  from L have L1: "length states = length st0" by (rule conjunct1)
  from L have L2: "\<forall>j\<le>0. states ! j = st0 ! j" by (rule conjunct1 [OF conjunct2])
  from L have L3: "\<forall>j<length st0. length (states ! j) = length (st0 ! j)"
    by (rule conjunct1 [OF conjunct2 [OF conjunct2]])
  from L have L4: "\<forall>i. 0 \<le> i \<and> i < ?n - 1 \<longrightarrow>
        i + 1 < length st0 \<and> i < length ts \<and>
        (\<exists>v. rk4_next_r r f params dt (states ! i) (ts ! i) = Inr v \<and>
             (length v = length (st0 ! (i + 1)) \<or> length v = 1) \<and>
             states ! (i + 1) = stretch (length (st0 ! (i + 1))) v)"
    by (rule conjunct2 [OF conjunct2 [OF conjunct2]])
  show "length states = ?n" using L1 len0 by simp
  show "states ! 0 = state0"
    using L2 npos by (simp add: st0_eq np_zeros_def)
  show "\<forall>j<?n. length (states ! j) = length state0"
    using L3 len0 rows0 by simp
  show "\<forall>i. i + 1 < ?n \<longrightarrow>
            (\<exists>v. rk4_next_r r f params dt (states ! i) (ts ! i) = Inr v \<and>
                 (length v = length state0 \<or> length v = 1) \<and>
                 states ! (i + 1) = stretch (length state0) v)"
  proof (intro allI impI)
    fix i assume i: "i + 1 < ?n"
    then have "0 \<le> i \<and> i < ?n - 1" by simp
    with L4 obtain v where
      v: "rk4_next_r r f params dt (states ! i) (ts ! i) = Inr v"
         "length v = length (st0 ! (i + 1)) \<or> length v = 1"
         "states ! (i + 1) = stretch (length (st0 ! (i + 1))) v"
      by blast
    have row: "length (st0 ! (i + 1)) = length state0" using rows0 i by simp
    from v show "\<exists>v. rk4_next_r r f params dt (states ! i) (ts ! i) = Inr v \<and>
                 (length v = length state0 \<or> length v = 1) \<and>
                 states ! (i + 1) = stretch (length state0) v"
      unfolding row by blast
  qed
qed

lemma rk4r_run_returns:
  assumes nx: "\<forall>s ti. length s = length state0 \<longrightarrow>
                 (\<exists>v. rk4_next_r r f params dt s ti = Inr v \<and> length v = length state0)"
    and t: "arange_r r t0 tf dt = Inr t" and n: "0 < length t"
  shows "\<exists>states. runge_kutta4_r r f state0 (t0, tf) dt params = Inr (t, states)"
proof -
  let ?n = "length t"
  let ?st = "(np_zeros ?n (length state0))[0 := state0]"
  have st: "np_assign_row (np_zeros ?n (length state0)) 0 state0 = Inr ?st"
    using n by (simp add: np_assign_row_zeros)
  have rows: "\<forall>j<length ?st. length (?st ! j) = length state0"
    using n by (auto simp: np_zeros_def nth_list_update)
  have "\<exists>state'. rk4_loop_r r f params dt t [0..<?n - 1] ?st = Inr state'"
    using n by (intro rk4r_loop_returns [OF nx rows]) (simp_all add: np_zeros_def)
  then obtain state' where loop: "rk4_loop_r r f params dt t [0..<?n - 1] ?st = Inr state'"
    by blast
  have "runge_kutta4_r r f state0 (t0, tf) dt params = Inr (t, state')"
    unfolding runge_kutta4_r_def Let_def prod.case
    by (simp only: t st loop and_then_Inr)
  then show ?thesis by blast
qed

section \<open>Roundings, and the exact embedding as an instance\<close>

lemma sign_preserving_id: "sign_preserving id"
  by (simp add: sign_preserving_def)

lemma round64_sign:
  assumes "x \<noteq> 0"
  shows "(0 < x \<longrightarrow> 0 < round64 x) \<and> (x < 0 \<longrightarrow> round64 x < 0)"
proof -
  let ?k = "\<lfloor>log 2 \<bar>x\<bar>\<rfloor>"
  let ?e = "?k - 52"
  let ?y = "x / 2 powr of_int ?e"
  have ax: "0 < \<bar>x\<bar>" using assms by simp
  have "2 powr of_int ?k \<le> \<bar>x\<bar>"
    using floor_log_eq_powr_iff [of "\<bar>x\<bar>" 2 ?k] ax by simp
  moreover have "(2::real) powr of_int ?k = 2 ^ 52 * 2 powr of_int ?e"
  proof -
    have "(2::real) powr (52 + of_int ?e) = 2 powr 52 * 2 powr of_int ?e" by (rule powr_add)
    moreover have "52 + real_of_int ?e = of_int ?k" by simp
    moreover have "(2::real) powr 52 = 2 ^ 52" by simp
    ultimately show ?thesis by simp
  qed
  ultimately have big: "2 ^ 52 * 2 powr of_int ?e \<le> \<bar>x\<bar>" by simp
  have pe: "0 < (2::real) powr of_int ?e" by simp
  from big pe have ay: "2 ^ 52 \<le> \<bar>x\<bar> / 2 powr of_int ?e"
    by (simp add: pos_le_divide_eq)
  have r: "round64 x = of_int (rne ?y) * 2 powr of_int ?e"
    using assms by (simp add: round64_def Let_def)
  show ?thesis
  proof (intro conjI impI)
    assume "0 < x"
    then have "2 ^ 52 \<le> ?y" using ay by simp
    moreover have "(1::real) \<le> 2 ^ 52" by simp
    ultimately have "(1::real) \<le> ?y" by (rule order_trans [rotated])
    then have "1 \<le> \<lfloor>?y\<rfloor>" by (simp add: le_floor_iff)
    with rne_bounds [of ?y] have "0 < rne ?y" by linarith
    then show "0 < round64 x" unfolding r using pe by (simp add: zero_less_mult_iff)
  next
    assume "x < 0"
    then have "\<bar>x\<bar> / 2 powr of_int ?e = - ?y" by simp
    with ay have "?y \<le> - (2 ^ 52)" by simp
    moreover have "- ((2::real) ^ 52) < -1" by simp
    ultimately have "?y < -1" by (rule le_less_trans)
    then have "\<lfloor>?y\<rfloor> < -1" by (simp add: floor_less_iff)
    with rne_bounds [of ?y] have "rne ?y < 0" by linarith
    then show "round64 x < 0" unfolding r using pe by (simp add: mult_less_0_iff)
  qed
qed

lemma sign_preserving_round64: "sign_preserving round64"
  unfolding sign_preserving_def
proof (intro conjI allI impI)
  fix x :: real assume "0 < x"
  then show "0 < round64 x" using round64_sign [of x] by simp
next
  fix x :: real assume "x < 0"
  then show "round64 x < 0" using round64_sign [of x] by simp
next
  show "round64 0 = 0" by (simp add: round64_def)
qed

lemma np_ops_id:
  "np_mul_r id = np_mul" "np_div_r id = np_div" "np_rmul_r id = np_rmul" "np_add_r id = np_add"
  by (auto simp: fun_eq_iff np_mul_r_def np_mul_def np_div_r_def np_div_def
      np_rmul_r_def np_rmul_def np_add_r_def np_add_def)

lemma rk4_next_r_id: "rk4_next_r id f params dt s ti = rk4_next f params dt s ti"
  by (simp add: rk4_next_r_def rk4_next_def np_ops_id)

lemma rk4_body_r_id: "rk4_body_r id f params dt t state i = rk4_body f params dt t state i"
  by (simp add: rk4_body_r_def rk4_body_def np_ops_id)

lemma rk4_loop_r_id: "rk4_loop_r id f params dt t is state = rk4_loop f params dt t is state"
  by (induction "is" arbitrary: state) (simp_all add: rk4_body_r_id split: sum.splits)

lemma grid_r_id: "grid_r id start step n = map (\<lambda>k. start + real k * step) [0..<n]"
  unfolding grid_r_def by (rule map_cong) (auto simp: algebra_simps)

lemma arange_r_id: "arange_r id start stop step = arange start stop step"
  by (simp add: arange_r_def arange_def grid_r_id)

lemma runge_kutta4_r_id:
  "runge_kutta4_r id f state0 t_span dt params = runge_kutta4 f state0 t_span dt params"
  by (simp add: runge_kutta4_r_def runge_kutta4_def arange_r_id rk4_loop_r_id)

lemma npr_add_vadd: "length a = length b \<Longrightarrow> np_add_r r a b = Inr (vadd_r r a b)"
  by (simp add: np_add_r_def vadd_r_def)

lemma length_vadd_r [simp]: "length (vadd_r r a b) = min (length a) (length b)"
  by (simp add: vadd_r_def)

lemma rk4r_next_code:
  assumes ok: "field_ok f params d" and s: "length s = d"
  shows "rk4_next_r r f params dt s ti = Inr (code_rk4_step r (value_of f) params dt s ti)"
    and "length (code_rk4_step r (value_of f) params dt s ti) = d"
proof -
  let ?g = "value_of f"
  have g: "\<And>u t. length u = d \<Longrightarrow> f u t params = Inr (?g u t params) \<and> length (?g u t params) = d"
    using ok unfolding field_ok_def value_of_def by (metis sum.case(2))
  let ?k1 = "np_mul_r r (?g s ti params) dt"
  let ?s2 = "vadd_r r s (np_div_r r ?k1 2)"
  let ?k2 = "np_mul_r r (?g ?s2 (r (ti + r (dt / 2))) params) dt"
  let ?s3 = "vadd_r r s (np_div_r r ?k2 2)"
  let ?k3 = "np_mul_r r (?g ?s3 (r (ti + r (dt / 2))) params) dt"
  let ?s4 = "vadd_r r s ?k3"
  let ?k4 = "np_mul_r r (?g ?s4 (r (ti + dt)) params) dt"
  let ?a1 = "vadd_r r ?k1 (np_rmul_r r 2 ?k2)"
  let ?a2 = "vadd_r r ?a1 (np_rmul_r r 2 ?k3)"
  let ?a3 = "vadd_r r ?a2 ?k4"
  let ?res = "vadd_r r s (np_div_r r ?a3 6)"
  have f1: "f s ti params = Inr (?g s ti params)" and l1: "length ?k1 = d"
    using g [OF s] by simp_all
  have e2: "np_add_r r s (np_div_r r ?k1 2) = Inr ?s2" and ls2: "length ?s2 = d"
    using s l1 by (simp_all add: npr_add_vadd)
  have f2: "f ?s2 (r (ti + r (dt / 2))) params = Inr (?g ?s2 (r (ti + r (dt / 2))) params)"
    and l2: "length ?k2 = d"
    using g [OF ls2] by simp_all
  have e3: "np_add_r r s (np_div_r r ?k2 2) = Inr ?s3" and ls3: "length ?s3 = d"
    using s l2 by (simp_all add: npr_add_vadd)
  have f3: "f ?s3 (r (ti + r (dt / 2))) params = Inr (?g ?s3 (r (ti + r (dt / 2))) params)"
    and l3: "length ?k3 = d"
    using g [OF ls3] by simp_all
  have e4: "np_add_r r s ?k3 = Inr ?s4" and ls4: "length ?s4 = d"
    using s l3 by (simp_all add: npr_add_vadd)
  have f4: "f ?s4 (r (ti + dt)) params = Inr (?g ?s4 (r (ti + dt)) params)"
    and l4: "length ?k4 = d"
    using g [OF ls4] by simp_all
  have a1: "np_add_r r ?k1 (np_rmul_r r 2 ?k2) = Inr ?a1" and la1: "length ?a1 = d"
    using l1 l2 by (simp_all add: npr_add_vadd)
  have a2: "np_add_r r ?a1 (np_rmul_r r 2 ?k3) = Inr ?a2" and la2: "length ?a2 = d"
    using la1 l3 by (simp_all add: npr_add_vadd)
  have a3: "np_add_r r ?a2 ?k4 = Inr ?a3" and la3: "length ?a3 = d"
    using la2 l4 by (simp_all add: npr_add_vadd)
  have res: "np_add_r r s (np_div_r r ?a3 6) = Inr ?res" and lres: "length ?res = d"
    using s la3 by (simp_all add: npr_add_vadd)
  have "rk4_next_r r f params dt s ti = Inr ?res"
    unfolding rk4_next_r_def Let_def
    by (simp only: f1 e2 f2 e3 f3 e4 f4 a1 a2 a3 res and_then_Inr)
  then show "rk4_next_r r f params dt s ti = Inr (code_rk4_step r (value_of f) params dt s ti)"
    by (simp add: code_rk4_step_def Let_def)
  show "length (code_rk4_step r (value_of f) params dt s ti) = d"
    unfolding code_rk4_step_def Let_def by (rule lres)
qed

lemma value_of_pure [simp]: "value_of (pure_field g) = g"
  by (simp add: fun_eq_iff value_of_def pure_field_def)

lemma code_rk4_step_exact:
  assumes dims: "\<forall>s t. length s = d \<longrightarrow> length (g s t params) = d" and s: "length s = d"
  shows "code_rk4_step id g params dt s ti = spec_rk4_step g params dt s ti"
proof -
  have ok: "field_ok (pure_field g) params d" using dims by (rule field_ok_pure)
  have "rk4_next_r id (pure_field g) params dt s ti =
          Inr (code_rk4_step id (value_of (pure_field g)) params dt s ti)"
    using ok s by (rule rk4r_next_code)
  moreover have "rk4_next (pure_field g) params dt s ti = Inr (spec_rk4_step g params dt s ti)"
    using dims s by (rule rk4_next_pure)
  ultimately show ?thesis by (simp add: rk4_next_r_id)
qed

lemma value_of_dims:
  "field_ok f params d \<Longrightarrow> \<forall>s t. length s = d \<longrightarrow> length (value_of f s t params) = d"
  unfolding field_ok_def value_of_def by (metis sum.case(2))

section \<open>The recurrence in rounded arithmetic\<close>

lemma round64_zero [simp]: "round64 0 = 0"
  by (simp add: round64_def)

lemma count_r_pos:
  fixes t0 tf dt :: real
  assumes sp: "sign_preserving r" and "t0 < tf" and "0 < dt"
  shows "0 < nat \<lceil>r (r (tf - t0) / dt)\<rceil>"
proof -
  have pos: "\<And>x. 0 < x \<Longrightarrow> 0 < r x" using sp by (simp add: sign_preserving_def)
  have "0 < r (tf - t0)" using assms(2) by (intro pos) simp
  then have "0 < r (tf - t0) / dt" using assms(3) by simp
  then have "0 < r (r (tf - t0) / dt)" by (rule pos)
  then have "0 < \<lceil>r (r (tf - t0) / dt)\<rceil>" by (simp add: less_ceiling_iff)
  then show ?thesis by simp
qed

lemma rk4r_run_field_ok:
  assumes ok: "field_ok f params (length state0)"
    and dt: "dt \<noteq> 0" and n: "0 < nat \<lceil>r (r (tf - t0) / dt)\<rceil>"
  shows "\<exists>ts states. runge_kutta4_r r f state0 (t0, tf) dt params = Inr (ts, states)"
proof -
  let ?t = "grid_r r t0 dt (nat \<lceil>r (r (tf - t0) / dt)\<rceil>)"
  have t: "arange_r r t0 tf dt = Inr ?t" using dt by (rule arange_r_Inr)
  have nx: "\<forall>s ti. length s = length state0 \<longrightarrow>
              (\<exists>v. rk4_next_r r f params dt s ti = Inr v \<and> length v = length state0)"
    using rk4r_next_code [OF ok] by blast
  have "\<exists>states. runge_kutta4_r r f state0 (t0, tf) dt params = Inr (?t, states)"
    using nx t n by (intro rk4r_run_returns) simp_all
  then show ?thesis by blast
qed

lemma rk4r_run_recurrence:
  assumes ok: "field_ok f params (length state0)"
    and run: "runge_kutta4_r r f state0 (t0, tf) dt params = Inr (ts, states)"
    and i: "i + 1 < length ts"
  shows "states ! (i + 1) = code_rk4_step r (value_of f) params dt (states ! i) (ts ! i)"
proof -
  note R = rk4r_run_Inr [OF run]
  have li: "length (states ! i) = length state0" using R(5) i by simp
  from R(6) i obtain v where
    v: "rk4_next_r r f params dt (states ! i) (ts ! i) = Inr v"
       "states ! (i + 1) = stretch (length state0) v" by blast
  note C = rk4r_next_code [OF ok li, of r dt "ts ! i"]
  from v(1) C(1) have "v = code_rk4_step r (value_of f) params dt (states ! i) (ts ! i)"
    by simp
  with v(2) C(2) show ?thesis by (simp add: stretch_same)
qed

text \<open>
  C1, as the code has it. For every rounding that keeps the sign, every field that
  answers states of the initial dimension with derivatives of that dimension, every
  \<open>t0 < tf\<close> and \<open>dt > 0\<close>, the integrator returns \<open>n \<ge> 1\<close> samples, the first state
  being the initial state, and every step \<open>i\<close> from \<open>0\<close> to \<open>n - 2\<close> is the step of the
  code in its own order of operations: \<open>k1 = f(states[i], times[i]) * dt\<close>,
  \<open>k2 = f(states[i] + k1/2, times[i] + dt/2) * dt\<close>, \<open>k3\<close> likewise from \<open>k2\<close>,
  \<open>k4 = f(states[i] + k3, times[i] + dt) * dt\<close> and
  \<open>states[i+1] = states[i] + (k1 + 2*k2 + 2*k3 + k4) / 6\<close>, each operation rounded. In
  exact arithmetic there are \<open>ceil((tf - t0)/dt)\<close> samples at the times \<open>t0 + i*dt\<close> and
  the step is the recurrence of the specification,
  \<open>states[i] + dt/6 * (k1 + 2*k2 + 2*k3 + k4)\<close> with the unscaled slopes. In binary64 the
  two differ, as rounding does not commute with the reordering.
\<close>

theorem runge_kutta4_r_recurrence:
  fixes t0 tf dt :: real
  assumes sp: "sign_preserving r" and span: "t0 < tf" and dt: "0 < dt"
    and ok: "field_ok f params (length state0)"
  shows "\<exists>ts states.
           runge_kutta4_r r f state0 (t0, tf) dt params = Inr (ts, states) \<and>
           0 < length ts \<and> length states = length ts \<and> states ! 0 = state0 \<and>
           (\<forall>i. i + 1 < length ts \<longrightarrow>
              states ! (i + 1) =
                code_rk4_step r (value_of f) params dt (states ! i) (ts ! i)) \<and>
           (r = id \<longrightarrow>
              length ts = nat \<lceil>(tf - t0) / dt\<rceil> \<and>
              (\<forall>i<length ts. ts ! i = t0 + real i * dt) \<and>
              (\<forall>i. i + 1 < length ts \<longrightarrow>
                 states ! (i + 1) =
                   spec_rk4_step (value_of f) params dt (states ! i) (ts ! i)))"
proof -
  have "\<exists>ts states. runge_kutta4_r r f state0 (t0, tf) dt params = Inr (ts, states)"
    using ok dt count_r_pos [OF sp span dt] by (intro rk4r_run_field_ok) simp_all
  then obtain ts states where
    run: "runge_kutta4_r r f state0 (t0, tf) dt params = Inr (ts, states)" by blast
  note R = rk4r_run_Inr [OF run]
  have rec: "\<forall>i. i + 1 < length ts \<longrightarrow>
              states ! (i + 1) =
                code_rk4_step r (value_of f) params dt (states ! i) (ts ! i)"
    using rk4r_run_recurrence [OF ok run] by blast
  have exact: "r = id \<longrightarrow>
              length ts = nat \<lceil>(tf - t0) / dt\<rceil> \<and>
              (\<forall>i<length ts. ts ! i = t0 + real i * dt) \<and>
              (\<forall>i. i + 1 < length ts \<longrightarrow>
                 states ! (i + 1) =
                   spec_rk4_step (value_of f) params dt (states ! i) (ts ! i))"
  proof
    assume id: "r = id"
    have arange: "arange t0 tf dt = Inr ts" using R(1) by (simp add: id arange_r_id)
    then have ts: "ts = map (\<lambda>k. t0 + real k * dt) [0..<nat \<lceil>(tf - t0) / dt\<rceil>]"
      by (simp add: arange_eq_Inr)
    have len: "length ts = nat \<lceil>(tf - t0) / dt\<rceil>" by (simp add: ts)
    have nth: "\<forall>i<length ts. ts ! i = t0 + real i * dt" by (simp add: ts)
    have dims: "\<forall>s t. length s = length state0 \<longrightarrow>
                  length (value_of f s t params) = length state0"
      using ok by (rule value_of_dims)
    have sp_rec: "\<forall>i. i + 1 < length ts \<longrightarrow>
                 states ! (i + 1) =
                   spec_rk4_step (value_of f) params dt (states ! i) (ts ! i)"
    proof (intro allI impI)
      fix i assume i: "i + 1 < length ts"
      have li: "length (states ! i) = length state0" using R(5) i by simp
      have "states ! (i + 1) =
              code_rk4_step id (value_of f) params dt (states ! i) (ts ! i)"
        using rec i by (simp add: id)
      also have "\<dots> = spec_rk4_step (value_of f) params dt (states ! i) (ts ! i)"
        using dims li by (rule code_rk4_step_exact)
      finally show "states ! (i + 1) =
                   spec_rk4_step (value_of f) params dt (states ! i) (ts ! i)" .
    qed
    from len nth sp_rec show "length ts = nat \<lceil>(tf - t0) / dt\<rceil> \<and>
              (\<forall>i<length ts. ts ! i = t0 + real i * dt) \<and>
              (\<forall>i. i + 1 < length ts \<longrightarrow>
                 states ! (i + 1) =
                   spec_rk4_step (value_of f) params dt (states ! i) (ts ! i))"
      by (intro conjI)
  qed
  from run R(2) R(3) R(4) rec exact
  have "runge_kutta4_r r f state0 (t0, tf) dt params = Inr (ts, states) \<and>
           0 < length ts \<and> length states = length ts \<and> states ! 0 = state0 \<and>
           (\<forall>i. i + 1 < length ts \<longrightarrow>
              states ! (i + 1) =
                code_rk4_step r (value_of f) params dt (states ! i) (ts ! i)) \<and>
           (r = id \<longrightarrow>
              length ts = nat \<lceil>(tf - t0) / dt\<rceil> \<and>
              (\<forall>i<length ts. ts ! i = t0 + real i * dt) \<and>
              (\<forall>i. i + 1 < length ts \<longrightarrow>
                 states ! (i + 1) =
                   spec_rk4_step (value_of f) params dt (states ! i) (ts ! i)))"
    by (intro conjI)
  then show ?thesis by (intro exI)
qed

theorem runge_kutta4_r_recurrence_counterexample:
  "runge_kutta4_r round64 (\<lambda>s t p. Inr [1]) [0]
      (0, 3602879701896397 / 2 ^ 54) (3602879701896397 / 2 ^ 55) () =
     Inr ([0, 3602879701896397 / 2 ^ 55], [[0], [7205759403792793 / 2 ^ 56]]) \<and>
   spec_rk4_step (\<lambda>s t p. [1]) () (3602879701896397 / 2 ^ 55) [0] 0 =
     [7205759403792794 / 2 ^ 56]"
  by (simp add: runge_kutta4_r_def arange_r_def grid_r_def np_assign_row_def np_zeros_def
      rk4_body_r_def index_def np_add_r_def np_mul_r_def np_div_r_def np_rmul_r_def upt_rec
      spec_rk4_step_def vadd_def smul_def rne_def Let_def
      round64_scaled [where k = 51] round64_scaled [where k = 53] round64_scaled [where k = 54]
      round64_scaled [where k = 55] round64_scaled [where k = 56] round64_scaled [where k = 57])

theorem runge_kutta4_r_recurrence_witness:
  "sign_preserving round64 \<and> (0::real) < 2 \<and> (0::real) < 5764607523034235 / 2 ^ 59 \<and>
   field_ok dc_motor_ode [1/100, 1/10, 1/10, 1/10, 1, 1/10, 1] (length [0, 0 :: real]) \<and>
   (\<exists>ts states.
      runge_kutta4_r round64 dc_motor_ode [0, 0] (0, 2) (5764607523034235 / 2 ^ 59)
        [1/100, 1/10, 1/10, 1/10, 1, 1/10, 1] = Inr (ts, states) \<and>
      0 < length ts \<and> length states = length ts \<and> states ! 0 = [0, 0])"
proof -
  let ?p = "[1/100, 1/10, 1/10, 1/10, 1, 1/10, 1 :: real]"
  let ?dt = "5764607523034235 / 2 ^ 59 :: real"
  let ?run = "runge_kutta4_r round64 dc_motor_ode [0, 0] (0, 2) ?dt ?p"
  have h1: "(0::real) < 2" and h2: "(0::real) < ?dt" by simp_all
  have ok: "field_ok dc_motor_ode ?p (length [0, 0 :: real])"
    using dc_motor_field_ok [of "1/100" "1/10" "1/10" "1/10" "1/10" 1 1]
    by (simp add: numeral_2_eq_2)
  from runge_kutta4_r_recurrence [OF sign_preserving_round64 h1 h2 ok]
  obtain ts states where
    "?run = Inr (ts, states)" "0 < length ts" "length states = length ts" "states ! 0 = [0, 0]"
    by blast
  then have "?run = Inr (ts, states) \<and>
      0 < length ts \<and> length states = length ts \<and> states ! 0 = [0, 0]"
    by (intro conjI)
  then have "\<exists>ts states. ?run = Inr (ts, states) \<and>
      0 < length ts \<and> length states = length ts \<and> states ! 0 = [0, 0]"
    by (intro exI)
  with sign_preserving_round64 h1 h2 ok show ?thesis by (intro conjI)
qed

section \<open>The sample grid in rounded arithmetic\<close>

lemma count200:
  "nat \<lceil>round64 (round64 (2 - 0) / round64 (1 / 100))\<rceil> = 200"
proof -
  have a: "round64 (2 - 0) = 2"
    by (simp add: round64_scaled [where k = 51] rne_def Let_def)
  have b: "round64 (1 / 100) = 5764607523034235 / 2 ^ 59"
    by (simp add: round64_scaled [where k = 59] rne_def Let_def)
  have c: "round64 (2 / (5764607523034235 / 2 ^ 59)) = 200"
    by (simp add: round64_scaled [where k = 45] rne_def Let_def)
  show ?thesis unfolding a b c by simp
qed

text \<open>
  C3, as the code has it. For every rounding that keeps the sign, \<open>t0 < tf\<close> and
  \<open>dt > 0\<close>: a run returns whenever the field answers states of the initial dimension
  with derivatives of that dimension. Every returned trajectory has
  \<open>len(times) = len(states) = n \<ge> 1\<close>, where \<open>n\<close> is the ceiling of the rounded quotient
  of the rounded difference \<open>tf - t0\<close> by \<open>dt\<close>; \<open>times[0] = t0\<close>, \<open>times[1]\<close> is
  \<open>t0 + dt\<close> rounded, and \<open>times[k]\<close> for \<open>k \<ge> 2\<close> is \<open>t0 + k*delta\<close> rounded, with
  \<open>delta = times[1] - t0\<close> rounded; every state has the dimension of the initial state;
  in binary64, \<open>t0 = 0\<close>, \<open>tf = 2\<close> and \<open>dt = 0.01\<close> give exactly 200 samples. In exact
  arithmetic \<open>n = ceil((tf - t0)/dt)\<close>, \<open>times[k] = t0 + k*dt\<close>, the times increase
  strictly and \<open>times[n-1] < tf \<le> times[n-1] + dt\<close>. In binary64 the last sample can lie
  above \<open>tf\<close>.
\<close>

theorem runge_kutta4_r_sample_grid:
  fixes t0 tf dt :: real
  assumes sp: "sign_preserving r" and span: "t0 < tf" and dt: "0 < dt"
  shows "(field_ok f params (length state0) \<longrightarrow>
            (\<exists>ts states. runge_kutta4_r r f state0 (t0, tf) dt params = Inr (ts, states))) \<and>
         (\<forall>ts states. runge_kutta4_r r f state0 (t0, tf) dt params = Inr (ts, states) \<longrightarrow>
            0 < length ts \<and> length states = length ts \<and>
            int (length ts) = \<lceil>r (r (tf - t0) / dt)\<rceil> \<and>
            ts ! 0 = t0 \<and>
            (1 < length ts \<longrightarrow> ts ! 1 = r (t0 + dt)) \<and>
            (\<forall>k. 2 \<le> k \<and> k < length ts \<longrightarrow>
               ts ! k = r (t0 + r (real k * r (r (t0 + dt) - t0)))) \<and>
            (\<forall>s\<in>set states. length s = length state0) \<and>
            (r = round64 \<and> t0 = 0 \<and> tf = 2 \<and> dt = round64 (1 / 100) \<longrightarrow> length ts = 200) \<and>
            (r = id \<longrightarrow>
               int (length ts) = \<lceil>(tf - t0) / dt\<rceil> \<and>
               (\<forall>k<length ts. ts ! k = t0 + real k * dt) \<and>
               (\<forall>j k. j < k \<and> k < length ts \<longrightarrow> ts ! j < ts ! k) \<and>
               ts ! (length ts - 1) < tf \<and> tf \<le> ts ! (length ts - 1) + dt))"
proof (intro conjI impI allI)
  assume "field_ok f params (length state0)"
  then show "\<exists>ts states. runge_kutta4_r r f state0 (t0, tf) dt params = Inr (ts, states)"
    using dt count_r_pos [OF sp span dt] by (intro rk4r_run_field_ok) simp_all
next
  fix ts states
  assume run: "runge_kutta4_r r f state0 (t0, tf) dt params = Inr (ts, states)"
  let ?n = "nat \<lceil>r (r (tf - t0) / dt)\<rceil>"
  note R = rk4r_run_Inr [OF run]
  have ts: "ts = grid_r r t0 dt ?n" using R(1) by (simp add: arange_r_eq_Inr)
  have len: "length ts = ?n" by (simp add: ts)
  have npos: "0 < ?n" using R(2) len by simp
  show c1: "0 < length ts" by (rule R(2))
  show c2: "length states = length ts" by (rule R(3))
  show c3: "int (length ts) = \<lceil>r (r (tf - t0) / dt)\<rceil>"
    using npos by (simp add: len)
  show c4: "ts ! 0 = t0" using npos by (simp add: ts grid_r_nth)
  show c5: "ts ! 1 = r (t0 + dt)" if "1 < length ts"
    using that by (simp add: ts grid_r_nth)
  show c6: "ts ! k = r (t0 + r (real k * r (r (t0 + dt) - t0)))"
    if "2 \<le> k \<and> k < length ts" for k
    using that by (simp add: ts grid_r_nth)
  show c7: "\<forall>s\<in>set states. length s = length state0"
    using R(3,5) by (auto simp: in_set_conv_nth)
  show c8: "length ts = 200" if a: "r = round64 \<and> t0 = 0 \<and> tf = 2 \<and> dt = round64 (1 / 100)"
  proof -
    have e0: "r = round64" using a by (rule conjunct1)
    have e1: "t0 = 0" using a by (rule conjunct1 [OF conjunct2])
    have e2: "tf = 2" using a by (rule conjunct1 [OF conjunct2 [OF conjunct2]])
    have e3: "dt = round64 (1 / 100)" using a by (rule conjunct2 [OF conjunct2 [OF conjunct2]])
    show ?thesis unfolding len e0 e1 e2 e3 by (rule count200)
  qed
  {
    assume id: "r = id"
    have pure: "runge_kutta4 f state0 (t0, tf) dt params = Inr (ts, states)"
      using run by (simp add: id runge_kutta4_r_id)
    note E = runge_kutta4_Inr [OF pure]
    let ?m = "nat \<lceil>(tf - t0) / dt\<rceil>"
    have m: "length ts = ?m" by (simp add: E(3))
    have nth: "\<forall>k<?m. ts ! k = t0 + real k * dt" by (simp add: E(3))
    have last: "ts ! (?m - 1) = t0 + real (?m - 1) * dt" using E(2) nth by simp
    show "int (length ts) = \<lceil>(tf - t0) / dt\<rceil>"
      unfolding m using span dt by (rule grid_last_sample(1))
    show "ts ! k = t0 + real k * dt" if "k < length ts" for k
      using that nth m by simp
    show "ts ! j < ts ! k" if "j < k \<and> k < length ts" for j k
      using that dt nth m by simp
    show "ts ! (length ts - 1) < tf"
      unfolding m last using span dt by (rule grid_last_sample(2))
    show "tf \<le> ts ! (length ts - 1) + dt"
      unfolding m last using span dt by (rule grid_last_sample(3))
  }
qed

theorem runge_kutta4_r_sample_grid_witness:
  "sign_preserving round64 \<and> (0::real) < 2 \<and> 0 < round64 (1 / 100) \<and>
   field_ok dc_motor_ode [1/100, 1/10, 1/10, 1/10, 1, 1/10, 1] (length [0, 0 :: real]) \<and>
   (\<exists>ts states.
      runge_kutta4_r round64 dc_motor_ode [0, 0] (0, 2) (round64 (1 / 100))
        [1/100, 1/10, 1/10, 1/10, 1, 1/10, 1] = Inr (ts, states) \<and>
      length ts = 200 \<and> length states = 200 \<and> ts ! 0 = 0 \<and>
      (\<forall>s\<in>set states. length s = 2))"
proof -
  let ?p = "[1/100, 1/10, 1/10, 1/10, 1, 1/10, 1 :: real]"
  let ?dt = "round64 (1 / 100)"
  let ?run = "runge_kutta4_r round64 dc_motor_ode [0, 0] (0, 2) ?dt ?p"
  have h1: "(0::real) < 2" by simp
  have h2: "0 < ?dt" using round64_sign [of "1 / 100"] by simp
  have ok: "field_ok dc_motor_ode ?p (length [0, 0 :: real])"
    using dc_motor_field_ok [of "1/100" "1/10" "1/10" "1/10" "1/10" 1 1]
    by (simp add: numeral_2_eq_2)
  note T = runge_kutta4_r_sample_grid
    [OF sign_preserving_round64 h1 h2, of dc_motor_ode ?p "[0, 0]"]
  from T ok obtain ts states where run: "?run = Inr (ts, states)" by blast
  from T run have
    P: "length states = length ts" "ts ! 0 = 0"
       "\<forall>s\<in>set states. length s = length [0, 0 :: real]"
       "round64 = round64 \<and> (0::real) = 0 \<and> (2::real) = 2 \<and> ?dt = ?dt \<longrightarrow> length ts = 200"
    by blast+
  from P(4) have l1: "length ts = 200" by simp
  from P(1) l1 have l2: "length states = 200" by simp
  from P(3) have dims: "\<forall>s\<in>set states. length s = 2" by simp
  from run l1 l2 P(2) dims
  have "?run = Inr (ts, states) \<and> length ts = 200 \<and> length states = 200 \<and> ts ! 0 = 0 \<and>
      (\<forall>s\<in>set states. length s = 2)"
    by (intro conjI)
  then have "\<exists>ts states. ?run = Inr (ts, states) \<and> length ts = 200 \<and>
      length states = 200 \<and> ts ! 0 = 0 \<and> (\<forall>s\<in>set states. length s = 2)"
    by (intro exI)
  with sign_preserving_round64 h1 h2 ok show ?thesis by (intro conjI)
qed

theorem runge_kutta4_r_sample_grid_counterexample:
  "runge_kutta4_r round64 zero_field [0]
      (1, 5854679515581645 / 2 ^ 52) (3602879701896397 / 2 ^ 55) () =
     Inr ([1, 2476979795053773 / 2 ^ 51, 1351079888211149 / 2 ^ 50, 2927339757790823 / 2 ^ 51],
          [[0], [0], [0], [0]]) \<and>
   (5854679515581645 / 2 ^ 52 :: real) < 2927339757790823 / 2 ^ 51"
  by (simp add: runge_kutta4_r_def arange_r_def grid_r_def np_assign_row_def np_zeros_def
      rk4_body_r_def index_def np_add_r_def np_mul_r_def np_div_r_def np_rmul_r_def upt_rec
      zero_field_def rne_def Let_def
      round64_scaled [where k = 51] round64_scaled [where k = 52] round64_scaled [where k = 54]
      round64_scaled [where k = 55] round64_scaled [where k = 56])

section \<open>Steps that are not positive\<close>

lemma rk4r_run_zero_step:
  "runge_kutta4_r r f state0 (t0, tf) 0 params = Inl ZeroDivisionError"
  by (simp add: runge_kutta4_r_def arange_r_def)

lemma rk4r_run_empty_grid:
  assumes "dt \<noteq> 0" and "nat \<lceil>r (r (tf - t0) / dt)\<rceil> = 0"
  shows "runge_kutta4_r r f state0 (t0, tf) dt params = Inl IndexError"
  using assms
  by (simp add: runge_kutta4_r_def arange_r_Inr np_assign_row_zeros_empty)

text \<open>
  C5, as the code has it. The integrator has no check of the step size and never raises
  an invalid-argument error. For every rounding that keeps the sign: with \<open>dt = 0\<close> the
  call ends with ZeroDivisionError, raised inside \<^verbatim>\<open>np.arange\<close>; with \<open>dt < 0\<close> and
  \<open>t0 \<le> tf\<close> it ends with IndexError, the grid being empty; with \<open>dt < 0\<close> and \<open>tf < t0\<close>
  the call is not rejected: it ends with an exception, or it returns a trajectory of
  \<open>len(times) = len(states) \<ge> 1\<close> samples with \<open>times[0] = t0\<close> and
  \<open>states[0] = state0\<close>, and it does return one whenever the field answers states of
  the initial dimension with derivatives of that dimension. So every call with
  \<open>dt \<le> 0\<close> ends.
\<close>

theorem runge_kutta4_r_nonpositive_step:
  fixes t0 tf dt :: real
  assumes sp: "sign_preserving r" and step: "dt \<le> 0"
  shows "(dt = 0 \<longrightarrow> runge_kutta4_r r f state0 (t0, tf) dt params = Inl ZeroDivisionError) \<and>
         (dt < 0 \<and> t0 \<le> tf \<longrightarrow>
            runge_kutta4_r r f state0 (t0, tf) dt params = Inl IndexError) \<and>
         (dt < 0 \<and> tf < t0 \<longrightarrow>
            ((\<exists>e. runge_kutta4_r r f state0 (t0, tf) dt params = Inl e) \<or>
             (\<exists>ts states. runge_kutta4_r r f state0 (t0, tf) dt params = Inr (ts, states) \<and>
                0 < length ts \<and> length states = length ts \<and>
                ts ! 0 = t0 \<and> states ! 0 = state0)) \<and>
            (field_ok f params (length state0) \<longrightarrow>
               (\<exists>ts states. runge_kutta4_r r f state0 (t0, tf) dt params = Inr (ts, states) \<and>
                  0 < length ts \<and> length states = length ts \<and>
                  ts ! 0 = t0 \<and> states ! 0 = state0)))"
proof -
  let ?run = "runge_kutta4_r r f state0 (t0, tf) dt params"
  have pos: "\<And>x. 0 < x \<Longrightarrow> 0 < r x" and neg: "\<And>x. x < 0 \<Longrightarrow> r x < 0" and zero: "r 0 = 0"
    using sp by (simp_all add: sign_preserving_def)
  have nonneg: "0 \<le> r x" if "0 \<le> x" for x
    using that pos [of x] zero by (cases "x = 0") (simp_all add: less_imp_le)
  have nonpos: "r x \<le> 0" if "x \<le> 0" for x
    using that neg [of x] zero by (cases "x = 0") (simp_all add: less_imp_le)
  have returned: "0 < length ts \<and> length states = length ts \<and> ts ! 0 = t0 \<and> states ! 0 = state0"
    if run: "?run = Inr (ts, states)" for ts states
  proof -
    note R = rk4r_run_Inr [OF run]
    from R(1) have "ts = grid_r r t0 dt (length ts)"
      by (simp add: arange_r_eq_Inr)
    then have "ts ! 0 = grid_r r t0 dt (length ts) ! 0" by simp
    also have "\<dots> = t0" using R(2) by (simp add: grid_r_nth)
    finally have "ts ! 0 = t0" .
    with R(2) R(3) R(4) show ?thesis by (intro conjI)
  qed
  have c1: "dt = 0 \<longrightarrow> ?run = Inl ZeroDivisionError"
    by (simp add: rk4r_run_zero_step)
  have c2: "dt < 0 \<and> t0 \<le> tf \<longrightarrow> ?run = Inl IndexError"
  proof
    assume a: "dt < 0 \<and> t0 \<le> tf"
    show "?run = Inl IndexError"
    proof (rule rk4r_run_empty_grid)
      show "dt \<noteq> 0" using a by simp
      have "0 \<le> r (tf - t0)" using a by (intro nonneg) simp
      then have "r (tf - t0) / dt \<le> 0" using a by (simp add: divide_le_0_iff)
      then have "r (r (tf - t0) / dt) \<le> 0" by (rule nonpos)
      then have "\<lceil>r (r (tf - t0) / dt)\<rceil> \<le> 0" by (simp add: ceiling_le_iff)
      then show "nat \<lceil>r (r (tf - t0) / dt)\<rceil> = 0" by simp
    qed
  qed
  have c3: "dt < 0 \<and> tf < t0 \<longrightarrow>
            ((\<exists>e. ?run = Inl e) \<or>
             (\<exists>ts states. ?run = Inr (ts, states) \<and>
                0 < length ts \<and> length states = length ts \<and>
                ts ! 0 = t0 \<and> states ! 0 = state0)) \<and>
            (field_ok f params (length state0) \<longrightarrow>
               (\<exists>ts states. ?run = Inr (ts, states) \<and>
                  0 < length ts \<and> length states = length ts \<and>
                  ts ! 0 = t0 \<and> states ! 0 = state0))"
  proof (intro impI conjI)
    show "(\<exists>e. ?run = Inl e) \<or>
             (\<exists>ts states. ?run = Inr (ts, states) \<and>
                0 < length ts \<and> length states = length ts \<and>
                ts ! 0 = t0 \<and> states ! 0 = state0)"
    proof (cases ?run)
      case (Inl e)
      then show ?thesis by blast
    next
      case (Inr p)
      obtain ts states where p: "p = (ts, states)" by (cases p)
      from Inr p have run: "?run = Inr (ts, states)" by simp
      from run returned [OF run] show ?thesis by blast
    qed
  next
    assume a: "dt < 0 \<and> tf < t0" and ok: "field_ok f params (length state0)"
    have "r (tf - t0) < 0" using a by (intro neg) simp
    then have "0 < r (tf - t0) / dt" using a by (simp add: zero_less_divide_iff)
    then have "0 < r (r (tf - t0) / dt)" by (rule pos)
    then have "0 < \<lceil>r (r (tf - t0) / dt)\<rceil>" by (simp add: less_ceiling_iff)
    then have n: "0 < nat \<lceil>r (r (tf - t0) / dt)\<rceil>" by simp
    have "dt \<noteq> 0" using a by simp
    with ok n have "\<exists>ts states. ?run = Inr (ts, states)"
      by (intro rk4r_run_field_ok)
    then obtain ts states where run: "?run = Inr (ts, states)" by blast
    from run returned [OF run]
    have "?run = Inr (ts, states) \<and>
                  0 < length ts \<and> length states = length ts \<and>
                  ts ! 0 = t0 \<and> states ! 0 = state0" by (intro conjI) simp_all
    then show "\<exists>ts states. ?run = Inr (ts, states) \<and>
                  0 < length ts \<and> length states = length ts \<and>
                  ts ! 0 = t0 \<and> states ! 0 = state0" by (intro exI)
  qed
  from c1 c2 c3 show ?thesis by (intro conjI)
qed

theorem runge_kutta4_r_nonpositive_step_witness:
  "sign_preserving round64 \<and> (-1::real) \<le> 0 \<and>
   field_ok dc_motor_ode [1, 1, 1, 1, 1, 1, 1] (length [0, 0 :: real]) \<and>
   (\<exists>ts states.
      runge_kutta4_r round64 dc_motor_ode [0, 0] (2, 0) (-1) [1, 1, 1, 1, 1, 1, 1]
        = Inr (ts, states) \<and>
      0 < length ts \<and> length states = length ts \<and> ts ! 0 = 2 \<and> states ! 0 = [0, 0])"
proof -
  let ?p = "[1, 1, 1, 1, 1, 1, 1 :: real]"
  let ?run = "runge_kutta4_r round64 dc_motor_ode [0, 0] (2, 0) (-1) ?p"
  have h: "(-1::real) \<le> 0" by simp
  have ok: "field_ok dc_motor_ode ?p (length [0, 0 :: real])"
    using dc_motor_field_ok [of 1 1 1 1 1 1 1] by (simp add: numeral_2_eq_2)
  note T = runge_kutta4_r_nonpositive_step
    [OF sign_preserving_round64 h, of dc_motor_ode "[0, 0]" 2 0 ?p]
  have c: "(-1::real) < 0 \<and> (0::real) < 2" by simp
  from T c ok
  have "\<exists>ts states. ?run = Inr (ts, states) \<and>
      0 < length ts \<and> length states = length ts \<and> ts ! 0 = 2 \<and> states ! 0 = [0, 0]"
    by blast
  with sign_preserving_round64 h ok show ?thesis by (intro conjI)
qed

theorem runge_kutta4_nonpositive_step_counterexample:
  "runge_kutta4 dc_motor_ode [0, 0] (2, 0) (-1) [1, 1, 1, 1, 1, 1, 1]
     = Inr ([2, 1], [[0, 0], [11 / 12, - (17 / 12)]])"
  by (simp add: runge_kutta4_def arange_def np_assign_row_def np_zeros_def rk4_body_def
      index_def dc_motor_ode_def np_add_def np_mul_def np_div_def np_rmul_def upt_rec)

section \<open>Derivatives of another dimension\<close>

lemma singleton_hd: "length v = 1 \<Longrightarrow> v = [hd v]"
  by (cases v) simp_all

lemma npr_add_one:
  assumes "length b = 1"
  shows "np_add_r r a b = Inr (map (\<lambda>x. r (x + hd b)) a)"
proof (cases "length a = 1")
  case True
  from singleton_hd [OF True] singleton_hd [OF assms]
  obtain a0 b0 where "a = [a0]" "b = [b0]" by blast
  then show ?thesis by (simp add: np_add_r_def)
next
  case False
  then show ?thesis using assms by (simp add: np_add_r_def)
qed

lemma map2_replicate:
  "map2 f a (replicate (length a) y) = map (\<lambda>x. f x y) a"
  by (induction a) simp_all

lemma npr_add_replicate:
  "np_add_r r a (replicate (length a) y) = Inr (map (\<lambda>x. r (x + y)) a)"
  by (simp add: np_add_r_def map2_replicate)

lemma npr_add_replicates:
  "np_add_r r (replicate d x) (replicate d y) = Inr (replicate d (r (x + y)))"
  using npr_add_replicate [of r "replicate d x" y] by simp

lemma npr_add_singletons: "np_add_r r [x] [y] = Inr [r (x + y)]"
  by (simp add: np_add_r_def)

lemma npr_scalar_ops:
  "np_mul_r r [x] c = [r (x * c)]" "np_mul_r r (replicate d x) c = replicate d (r (x * c))"
  "np_div_r r [x] c = [r (x / c)]" "np_div_r r (replicate d x) c = replicate d (r (x / c))"
  "np_rmul_r r c [x] = [r (c * x)]" "np_rmul_r r c (replicate d x) = replicate d (r (c * x))"
  by (simp_all add: np_mul_r_def np_div_r_def np_rmul_r_def)

lemma rk4r_next_stretched:
  assumes f: "\<forall>s t. \<exists>v. f s t params = Inr v \<and> length v = 1"
  shows "rk4_next_r r (stretched f) params dt s ti = rk4_next_r r f params dt s ti"
proof -
  have one: "\<exists>c. f u t params = Inr [c] \<and> stretched f u t params = Inr (replicate (length u) c)"
    for u t
  proof -
    from f obtain v where v: "f u t params = Inr v" "length v = 1" by blast
    from singleton_hd [OF v(2)] have "v = [hd v]" .
    then have "f u t params = Inr [hd v]" using v(1) by simp
    moreover from v(1) have "stretched f u t params = Inr (replicate (length u) (hd v))"
      by (simp add: stretched_def)
    ultimately show ?thesis by blast
  qed
  let ?d = "length s"
  let ?th = "r (ti + r (dt / 2))"
  from one [of s ti] obtain c1 where
    c1: "f s ti params = Inr [c1]" "stretched f s ti params = Inr (replicate ?d c1)" by blast
  let ?k1 = "r (c1 * dt)"
  let ?s2 = "map (\<lambda>x. r (x + r (?k1 / 2))) s"
  have s2: "np_add_r r s [r (?k1 / 2)] = Inr ?s2"
    "np_add_r r s (replicate ?d (r (?k1 / 2))) = Inr ?s2"
    by (simp_all add: npr_add_one npr_add_replicate)
  from one [of ?s2 ?th] obtain c2 where
    c2: "f ?s2 ?th params = Inr [c2]" "stretched f ?s2 ?th params = Inr (replicate ?d c2)"
    by auto
  let ?k2 = "r (c2 * dt)"
  let ?s3 = "map (\<lambda>x. r (x + r (?k2 / 2))) s"
  have s3: "np_add_r r s [r (?k2 / 2)] = Inr ?s3"
    "np_add_r r s (replicate ?d (r (?k2 / 2))) = Inr ?s3"
    by (simp_all add: npr_add_one npr_add_replicate)
  from one [of ?s3 ?th] obtain c3 where
    c3: "f ?s3 ?th params = Inr [c3]" "stretched f ?s3 ?th params = Inr (replicate ?d c3)"
    by auto
  let ?k3 = "r (c3 * dt)"
  let ?s4 = "map (\<lambda>x. r (x + ?k3)) s"
  have s4: "np_add_r r s [?k3] = Inr ?s4" "np_add_r r s (replicate ?d ?k3) = Inr ?s4"
    by (simp_all add: npr_add_one npr_add_replicate)
  from one [of ?s4 "r (ti + dt)"] obtain c4 where
    c4: "f ?s4 (r (ti + dt)) params = Inr [c4]"
        "stretched f ?s4 (r (ti + dt)) params = Inr (replicate ?d c4)"
    by auto
  let ?k4 = "r (c4 * dt)"
  let ?w = "r (r (r (r (?k1 + r (2 * ?k2)) + r (2 * ?k3)) + ?k4) / 6)"
  let ?res = "map (\<lambda>x. r (x + ?w)) s"
  have res: "np_add_r r s [?w] = Inr ?res" "np_add_r r s (replicate ?d ?w) = Inr ?res"
    by (simp_all add: npr_add_one npr_add_replicate)
  have lhs: "rk4_next_r r f params dt s ti = Inr ?res"
    unfolding rk4_next_r_def Let_def
    by (simp only: c1(1) c2(1) c3(1) c4(1) s2(1) s3(1) s4(1) res(1) and_then_Inr
        npr_scalar_ops npr_add_singletons)
  have rhs: "rk4_next_r r (stretched f) params dt s ti = Inr ?res"
    unfolding rk4_next_r_def Let_def
    by (simp only: c1(2) c2(2) c3(2) c4(2) s2(2) s3(2) s4(2) res(2) and_then_Inr
        npr_scalar_ops npr_add_replicates)
  from lhs rhs show ?thesis by simp
qed

lemma rk4r_body_stretched:
  assumes f: "\<forall>s t. \<exists>v. f s t params = Inr v \<and> length v = 1"
  shows "rk4_body_r r (stretched f) params dt t state i = rk4_body_r r f params dt t state i"
  by (simp add: rk4r_body_next rk4r_next_stretched [where f = f and params = params, OF f])

lemma rk4r_loop_stretched:
  assumes f: "\<forall>s t. \<exists>v. f s t params = Inr v \<and> length v = 1"
  shows "rk4_loop_r r (stretched f) params dt t is state = rk4_loop_r r f params dt t is state"
  by (induction "is" arbitrary: state) (simp_all add: rk4r_body_stretched [where f = f and params = params, OF f]
      split: sum.splits)

lemma rk4r_run_stretched:
  assumes f: "\<forall>s t. \<exists>v. f s t params = Inr v \<and> length v = 1"
  shows "runge_kutta4_r r (stretched f) state0 t_span dt params =
         runge_kutta4_r r f state0 t_span dt params"
  by (simp add: runge_kutta4_r_def rk4r_loop_stretched [where f = f and params = params, OF f])

lemma field_ok_stretched:
  assumes f: "\<forall>s t. \<exists>v. f s t params = Inr v \<and> length v = m"
  shows "field_ok (stretched f) params d"
  unfolding field_ok_def
proof (intro allI impI)
  fix s :: vec and t :: real
  assume s: "length s = d"
  from f obtain v where "f s t params = Inr v" by blast
  then have "stretched f s t params = Inr (replicate (length s) (hd v))"
    by (simp add: stretched_def)
  with s show "\<exists>v. stretched f s t params = Inr v \<and> length v = d" by simp
qed

text \<open>
  C7, as the code has it. The integrator never compares dimensions; NumPy's broadcasting
  decides. Let \<^verbatim>\<open>np.arange\<close> return at least two samples, so that a step is taken, and
  let the field answer every call with a derivative of length \<open>m\<close> different from the
  dimension of the initial state. For \<open>m = 1\<close> no error is raised: the derivative is
  stretched over all components, that is, the run is the run of the field whose
  derivative has that one number in every component of the state; it returns a
  trajectory of \<open>len(times)\<close> states of the initial dimension, each step being the step
  of the code for the stretched field. For \<open>m \<noteq> 1\<close> the run ends with ValueError, raised
  by the array arithmetic or by the row assignment.
\<close>

theorem runge_kutta4_r_dimension_mismatch:
  assumes grid: "arange_r r t0 tf dt = Inr t" and steps: "1 < length t"
    and f: "\<forall>s ti. \<exists>v. f s ti params = Inr v \<and> length v = m"
    and mismatch: "m \<noteq> length state0"
  shows "(m = 1 \<longrightarrow>
            runge_kutta4_r r f state0 (t0, tf) dt params =
              runge_kutta4_r r (stretched f) state0 (t0, tf) dt params \<and>
            (\<exists>states. runge_kutta4_r r f state0 (t0, tf) dt params = Inr (t, states) \<and>
               length states = length t \<and>
               (\<forall>s\<in>set states. length s = length state0) \<and>
               (\<forall>i. i + 1 < length t \<longrightarrow>
                  states ! (i + 1) =
                    code_rk4_step r (value_of (stretched f)) params dt (states ! i) (t ! i)))) \<and>
         (m \<noteq> 1 \<longrightarrow> runge_kutta4_r r f state0 (t0, tf) dt params = Inl ValueError)"
proof (intro conjI impI)
  assume m1: "m = 1"
  have f1: "\<forall>s ti. \<exists>v. f s ti params = Inr v \<and> length v = 1" using f m1 by simp
  show eq: "runge_kutta4_r r f state0 (t0, tf) dt params =
              runge_kutta4_r r (stretched f) state0 (t0, tf) dt params"
    using rk4r_run_stretched [where f = f and params = params, OF f1] by simp
  have ok: "field_ok (stretched f) params (length state0)"
    using f by (rule field_ok_stretched)
  have nx: "\<forall>s ti. length s = length state0 \<longrightarrow>
              (\<exists>v. rk4_next_r r (stretched f) params dt s ti = Inr v \<and>
                   length v = length state0)"
    using rk4r_next_code [OF ok] by blast
  have n0: "0 < length t" using steps by linarith
  have "\<exists>states. runge_kutta4_r r (stretched f) state0 (t0, tf) dt params = Inr (t, states)"
    using nx grid n0 by (rule rk4r_run_returns)
  then obtain states where
    run': "runge_kutta4_r r (stretched f) state0 (t0, tf) dt params = Inr (t, states)"
    by blast
  note R = rk4r_run_Inr [OF run']
  have run: "runge_kutta4_r r f state0 (t0, tf) dt params = Inr (t, states)"
    using eq run' by simp
  have dims: "\<forall>s\<in>set states. length s = length state0"
    using R(3,5) by (auto simp: in_set_conv_nth)
  have rec: "\<forall>i. i + 1 < length t \<longrightarrow>
                  states ! (i + 1) =
                    code_rk4_step r (value_of (stretched f)) params dt (states ! i) (t ! i)"
    using rk4r_run_recurrence [OF ok run'] by blast
  from run R(3) dims rec
  have "runge_kutta4_r r f state0 (t0, tf) dt params = Inr (t, states) \<and>
               length states = length t \<and>
               (\<forall>s\<in>set states. length s = length state0) \<and>
               (\<forall>i. i + 1 < length t \<longrightarrow>
                  states ! (i + 1) =
                    code_rk4_step r (value_of (stretched f)) params dt (states ! i) (t ! i))"
    by (intro conjI)
  then show "\<exists>states. runge_kutta4_r r f state0 (t0, tf) dt params = Inr (t, states) \<and>
               length states = length t \<and>
               (\<forall>s\<in>set states. length s = length state0) \<and>
               (\<forall>i. i + 1 < length t \<longrightarrow>
                  states ! (i + 1) =
                    code_rk4_step r (value_of (stretched f)) params dt (states ! i) (t ! i))"
    by (intro exI)
next
  let ?n = "length t"
  let ?st = "(np_zeros ?n (length state0))[0 := state0]"
  assume m1: "m \<noteq> 1"
  have n0: "0 < ?n" using steps by linarith
  have st: "np_assign_row (np_zeros ?n (length state0)) 0 state0 = Inr ?st"
    using n0 by (rule np_assign_row_zeros)
  have pos: "0 < ?n - 1" using steps by linarith
  have upt: "[0..<?n - 1] = 0 # [Suc 0..<?n - 1]"
    using pos by (rule upt_conv_Cons)
  have r0: "?st ! 0 = state0" using n0 by (simp add: np_zeros_def)
  have r1: "length (?st ! (0 + 1)) = length (?st ! 0)"
    using steps n0 by (simp add: np_zeros_def)
  have body: "rk4_body_r r f params dt t ?st 0 = Inl ValueError"
    using f m1 _ _ _ r1
  proof (rule rk4r_body_mismatch)
    show "m \<noteq> length (?st ! 0)" unfolding r0 by (rule mismatch)
    show "0 + 1 < length ?st" using steps by (simp add: np_zeros_def)
    show "0 < length t" by (rule n0)
  qed
  have loop: "rk4_loop_r r f params dt t [0..<?n - 1] ?st = Inl ValueError"
    unfolding upt by (simp add: body)
  show "runge_kutta4_r r f state0 (t0, tf) dt params = Inl ValueError"
    unfolding runge_kutta4_r_def Let_def prod.case
    by (simp only: grid st loop and_then_Inr and_then_Inl)
qed

theorem runge_kutta4_r_dimension_mismatch_witness:
  "arange_r round64 0 2 1 = Inr [0, 1] \<and> 1 < length [0, 1 :: real] \<and>
   (\<forall>(s::vec) (t::real). \<exists>v. (\<lambda>s t p. Inr [1]) s t () = (Inr v :: error + vec) \<and> length v = 1) \<and>
   1 \<noteq> length [0, 0 :: real] \<and>
   runge_kutta4_r round64 (\<lambda>s t p. Inr [1]) [0, 0] (0, 2) 1 () =
     runge_kutta4_r round64 (stretched (\<lambda>s t p. Inr [1])) [0, 0] (0, 2) 1 () \<and>
   (\<exists>states. runge_kutta4_r round64 (\<lambda>s t p. Inr [1]) [0, 0] (0, 2) 1 () =
        Inr ([0, 1], states) \<and>
      length states = 2 \<and> (\<forall>s\<in>set states. length s = 2))"
proof -
  let ?f = "\<lambda>(s::vec) (t::real) (p::unit). (Inr [1] :: error + vec)"
  have g: "arange_r round64 0 2 1 = Inr [0, 1]"
    by (simp add: arange_r_def grid_r_def upt_rec rne_def Let_def
        round64_scaled [where k = 51] round64_scaled [where k = 52])
  have h2: "1 < length [0, 1 :: real]" by simp
  have h3: "\<forall>(s::vec) (t::real). \<exists>v. ?f s t () = (Inr v :: error + vec) \<and> length v = 1"
    by simp
  have h4: "1 \<noteq> length [0, 0 :: real]" by simp
  note T = runge_kutta4_r_dimension_mismatch
    [where f = ?f and params = "()" and m = 1 and ?state0.0 = "[0, 0]" and r = round64,
     OF g h2 h3 h4]
  note T1 = T [THEN conjunct1, THEN mp, OF refl]
  note eq = T1 [THEN conjunct1]
  from T1 [THEN conjunct2] obtain states where
    S: "runge_kutta4_r round64 ?f [0, 0] (0, 2) 1 () = Inr ([0, 1], states)"
       "length states = length [0, 1 :: real]"
       "\<forall>s\<in>set states. length s = length [0, 0 :: real]"
    by blast
  have l: "length states = 2" using S(2) by simp
  have d: "\<forall>s\<in>set states. length s = 2" using S(3) by simp
  from S(1) l d
  have "runge_kutta4_r round64 ?f [0, 0] (0, 2) 1 () = Inr ([0, 1], states) \<and>
      length states = 2 \<and> (\<forall>s\<in>set states. length s = 2)"
    by (intro conjI)
  then have ex: "\<exists>states. runge_kutta4_r round64 ?f [0, 0] (0, 2) 1 () =
        Inr ([0, 1], states) \<and>
      length states = 2 \<and> (\<forall>s\<in>set states. length s = 2)"
    by (intro exI)
  from g h2 h3 h4 eq ex show ?thesis by (intro conjI)
qed

theorem runge_kutta4_dimension_mismatch_counterexample:
  "runge_kutta4 (\<lambda>s t p. Inr [1]) [0, 0] (0, 2) 1 () = Inr ([0, 1], [[0, 0], [1, 1]])"
  by (simp add: runge_kutta4_def arange_def np_assign_row_def np_zeros_def rk4_body_def
      index_def np_add_def np_mul_def np_div_def np_rmul_def upt_rec)

end
